theory Spec2Isabelle
  imports Main "HOL-Library.Word"
begin

unbundle bit_operations_syntax

section \<open>Data model of \<^verbatim>\<open>osmem.c\<close>\<close>

text \<open>
  Pointers and \<^verbatim>\<open>size_t\<close> values are 64-bit words: arithmetic wraps, comparison is
  unsigned, the null pointer is the address 0 and \<^verbatim>\<open>(void * )-1\<close> is the word of all ones.
\<close>

type_synonym addr = "64 word"
type_synonym size_t = "64 word"

abbreviation NULL :: addr where
  "NULL \<equiv> 0"

definition FAILED :: addr where
  \<comment> \<open>\<^verbatim>\<open>(void * )-1\<close>, the error value of \<^verbatim>\<open>sbrk\<close> and \<^verbatim>\<open>mmap\<close>\<close>
  "FAILED = - 1"

definition ALIGNMENT :: size_t where
  "ALIGNMENT = 8"

definition ALIGN :: "size_t \<Rightarrow> size_t" where
  "ALIGN n = (n + (ALIGNMENT - 1)) AND NOT (ALIGNMENT - 1)"

definition META_SIZE :: size_t where
  \<comment> \<open>Modelled from the spec: \<^verbatim>\<open>block_meta.h\<close> is not part of the sources. The header records
     a size, a status and two links; on an LP64 target that is 8 + 4 (+ 4 padding) + 8 + 8 bytes.\<close>
  "META_SIZE = 32"

definition MMAP_THRESHOLD :: size_t where
  "MMAP_THRESHOLD = 128 * 1024"

definition SIZE_MAX :: size_t where
  "SIZE_MAX = 4294967295"

text \<open>
  Modelled from the spec: the three status values \<^verbatim>\<open>STATUS_FREE\<close>, \<^verbatim>\<open>STATUS_ALLOC\<close> and
  \<^verbatim>\<open>STATUS_MAPPED\<close> come from the absent \<^verbatim>\<open>block_meta.h\<close>; the code only compares them.
\<close>

datatype status = STATUS_FREE | STATUS_ALLOC | STATUS_MAPPED

text \<open>
  Modelled from the spec: \<^verbatim>\<open>struct block_meta\<close> (declared in the absent \<^verbatim>\<open>block_meta.h\<close>) with
  the four fields the code uses. The field names carry a suffix because \<open>size\<close> and \<open>next\<close> are
  taken in Isabelle.
\<close>

record block_meta =
  size_m :: size_t
  status_m :: status
  prev_m :: addr
  next_m :: addr

text \<open>
  The program state: the three globals of the file (\<^verbatim>\<open>last\<close> is \<open>last_p\<close> here, the name
  \<open>last\<close> being taken), the memory, and the part of the operating system the two
  provisioning primitives depend on.

  Memory is a typed heap. \<open>meta s p\<close> is the header stored at address \<open>p\<close>, and \<open>is_meta s p\<close>
  says that a header has been written there (and not been overwritten by a byte copy since);
  \<open>mem s a\<close> is the payload byte at address \<open>a\<close>. Bytes that lie under a header are described
  by \<open>meta\<close> only.

  The operating system: the heap segment is \<open>[brk0, brk)\<close> and cannot grow beyond \<open>brk_max\<close>;
  \<open>maps\<close> lists the live anonymous mappings as (start, length), handed out consecutively from
  \<open>mmap_next\<close> and never beyond \<open>mmap_max\<close>; \<open>page_size\<close> is what
  \<^verbatim>\<open>sysconf(_SC_PAGESIZE)\<close> returns.
\<close>

record state =
  meta :: "addr \<Rightarrow> block_meta"
  is_meta :: "addr \<Rightarrow> bool"
  mem :: "addr \<Rightarrow> 8 word"
  global_base :: addr
  last_p :: addr
  prealloc :: bool
  brk0 :: addr
  brk :: addr
  brk_max :: addr
  maps :: "(addr \<times> size_t) list"
  mmap_next :: addr
  mmap_max :: addr
  page_size :: size_t

text \<open>
  What a call can do: return a value in a new state, terminate the process through \<^verbatim>\<open>DIE\<close>
  (the message is kept), or leave the model (\<open>Undef\<close>): an access to memory that is not
  mapped, a header read where the model knows no header, a \<^verbatim>\<open>memcpy\<close> between overlapping
  ranges. A loop that does not terminate is \<open>None\<close> one level up.

  Modelled from the spec: the macro \<^verbatim>\<open>DIE(assertion, message)\<close> is declared outside the
  sources; it is the fatal-error facility of the spec, which reports the message and
  terminates the process when the assertion holds.
\<close>

datatype 'a outcome = Ok 'a state | Die string | Undef

definition seq :: "'a outcome option \<Rightarrow> ('a \<Rightarrow> state \<Rightarrow> 'b outcome option) \<Rightarrow> 'b outcome option" where
  "seq m f = (case m of
      None \<Rightarrow> None
    | Some (Ok v s) \<Rightarrow> f v s
    | Some (Die msg) \<Rightarrow> Some (Die msg)
    | Some Undef \<Rightarrow> Some Undef)"

section \<open>The operating system's primitives\<close>

definition valid_range :: "state \<Rightarrow> addr \<Rightarrow> size_t \<Rightarrow> bool" where
  \<comment> \<open>the \<open>n\<close> bytes at \<open>a\<close> do not wrap around the address space and lie in the heap segment
     or in one live mapping\<close>
  "valid_range s a n \<longleftrightarrow>
     uint a + uint n < 2 ^ 64 \<and>
     ((uint (brk0 s) \<le> uint a \<and> uint a + uint n \<le> uint (brk s)) \<or>
      list_ex (\<lambda>(b, l). uint b \<le> uint a \<and> uint a + uint n \<le> uint b + uint l) (maps s))"

definition overlaps :: "addr \<Rightarrow> size_t \<Rightarrow> addr \<Rightarrow> size_t \<Rightarrow> bool" where
  \<comment> \<open>the \<open>n\<close> bytes at \<open>a\<close> and the \<open>m\<close> bytes at \<open>b\<close> have a byte in common\<close>
  "overlaps a n b m \<longleftrightarrow> uint a < uint b + uint m \<and> uint b < uint a + uint n"

definition sbrk :: "size_t \<Rightarrow> state \<Rightarrow> addr \<times> state" where
  \<comment> \<open>the increment is an \<^verbatim>\<open>intptr_t\<close>: it is read as a signed number. When the break is
     lowered, the headers above it are forgotten.\<close>
  "sbrk increment s =
     (let new = uint (brk s) + sint increment in
      if increment = 0 then (brk s, s)
      else if uint (brk0 s) \<le> new \<and> new \<le> uint (brk_max s)
        then (brk s,
              s\<lparr>brk := word_of_int new,
                is_meta := (\<lambda>a. is_meta s a \<and> (uint (brk s) \<le> new \<or> uint a + uint META_SIZE \<le> new))\<rparr>)
      else (FAILED, s))"

definition mmap :: "size_t \<Rightarrow> state \<Rightarrow> addr \<times> state" where
  \<comment> \<open>\<^verbatim>\<open>mmap(NULL, len, PROT_READ | PROT_WRITE, MAP_PRIVATE | MAP_ANONYMOUS, -1, 0)\<close>: the new
     region is zero-filled (the size and the links of a header read there are 0; the status
     is left open, as the value of \<^verbatim>\<open>STATUS_FREE\<close> is not in the sources) and holds no header\<close>
  "mmap len s =
     (if len = 0 \<or> uint (mmap_max s) < uint (mmap_next s) + uint len then (FAILED, s)
      else (mmap_next s,
            s\<lparr>maps := (mmap_next s, len) # maps s,
              mmap_next := mmap_next s + len,
              mem := (\<lambda>a. if a - mmap_next s < len then 0 else mem s a),
              meta := (\<lambda>a. if a - mmap_next s < len
                            then (meta s a)\<lparr>size_m := 0, prev_m := NULL, next_m := NULL\<rparr>
                            else meta s a),
              is_meta := (\<lambda>a. is_meta s a \<and> \<not> overlaps a META_SIZE (mmap_next s) len)\<rparr>))"

definition munmap :: "addr \<Rightarrow> size_t \<Rightarrow> state \<Rightarrow> (int \<times> state) option" where
  \<comment> \<open>\<open>None\<close>: the range is not exactly one live mapping, which the model does not describe\<close>
  "munmap a len s =
     (if len = 0 then Some (- 1, s)
      else if (a, len) \<in> set (maps s) then Some (0, s\<lparr>maps := removeAll (a, len) (maps s)\<rparr>)
      else None)"

definition memset :: "addr \<Rightarrow> 8 word \<Rightarrow> size_t \<Rightarrow> state \<Rightarrow> unit outcome" where
  "memset p c n s =
     (if n = 0 then Ok () s
      else if \<not> valid_range s p n then Undef
      else Ok () (s\<lparr>mem := (\<lambda>a. if a - p < n then c else mem s a),
                    is_meta := (\<lambda>a. is_meta s a \<and> \<not> overlaps a META_SIZE p n)\<rparr>))"

definition memcpy :: "addr \<Rightarrow> addr \<Rightarrow> size_t \<Rightarrow> state \<Rightarrow> unit outcome" where
  "memcpy dst src n s =
     (if n = 0 then Ok () s
      else if \<not> (valid_range s dst n \<and> valid_range s src n) then Undef
      else if overlaps dst n src n then Undef
      else Ok () (s\<lparr>mem := (\<lambda>a. if a - dst < n then mem s (src + (a - dst)) else mem s a),
                    is_meta := (\<lambda>a. is_meta s a \<and> \<not> overlaps a META_SIZE dst n)\<rparr>))"

section \<open>Header access\<close>

definition ok_meta :: "state \<Rightarrow> addr \<Rightarrow> bool" where
  \<comment> \<open>\<open>p\<close> may be dereferenced as a \<^verbatim>\<open>struct block_meta *\<close>\<close>
  "ok_meta s p \<longleftrightarrow> p \<noteq> NULL \<and> is_meta s p \<and> valid_range s p META_SIZE"

definition new_meta :: "addr \<Rightarrow> state \<Rightarrow> state" where
  "new_meta p s = s\<lparr>is_meta := (is_meta s)(p := True)\<rparr>"

definition set_size :: "addr \<Rightarrow> size_t \<Rightarrow> state \<Rightarrow> state" where
  "set_size p v s = s\<lparr>meta := (meta s)(p := (meta s p)\<lparr>size_m := v\<rparr>)\<rparr>"

definition set_status :: "addr \<Rightarrow> status \<Rightarrow> state \<Rightarrow> state" where
  "set_status p v s = s\<lparr>meta := (meta s)(p := (meta s p)\<lparr>status_m := v\<rparr>)\<rparr>"

definition set_prev :: "addr \<Rightarrow> addr \<Rightarrow> state \<Rightarrow> state" where
  "set_prev p v s = s\<lparr>meta := (meta s)(p := (meta s p)\<lparr>prev_m := v\<rparr>)\<rparr>"

definition set_next :: "addr \<Rightarrow> addr \<Rightarrow> state \<Rightarrow> state" where
  "set_next p v s = s\<lparr>meta := (meta s)(p := (meta s p)\<lparr>next_m := v\<rparr>)\<rparr>"

section \<open>The allocator\<close>

subsection \<open>\<^verbatim>\<open>brk_block\<close>\<close>

definition brk_block :: "size_t \<Rightarrow> state \<Rightarrow> addr outcome" where
  "brk_block size' s =
     (if size' \<le> 0 then Ok NULL s
      else
        let (block, s0) = sbrk 0 s;
            (req, s1) = sbrk size' s0
        in if req \<noteq> block then Die ''sbrk failed''
           else if req = FAILED then Ok NULL s1
           else if \<not> (block \<noteq> NULL \<and> valid_range s1 block META_SIZE) then Undef
           else
             let s2 = set_status block STATUS_ALLOC (new_meta block s1);
                 s3 = set_size block size' s2
             in if last_p s3 = NULL then
                  Ok block ((set_prev block NULL (set_next block NULL s3))\<lparr>last_p := block\<rparr>)
                else if \<not> ok_meta s3 (last_p s3) then Undef
                else
                  let s4 = set_prev block (last_p s3) s3;
                      s5 = set_next block (next_m (meta s4 (last_p s4))) s4;
                      s6 = set_next (last_p s5) block s5
                  in Ok block (s6\<lparr>last_p := block\<rparr>))"

subsection \<open>\<^verbatim>\<open>split_block\<close>\<close>

definition split_block :: "addr \<Rightarrow> size_t \<Rightarrow> state \<Rightarrow> unit outcome" where
  "split_block block size' s =
     (if block = NULL then Ok () s
      else if \<not> ok_meta s block then Undef
      else
        let rem_size = size_m (meta s block) - size' in
        if rem_size < META_SIZE + ALIGNMENT then Ok () s
        else
          let new_block = block + size' in
          if \<not> (new_block \<noteq> NULL \<and> valid_range s new_block META_SIZE) then Undef
          else
            let s1 = set_size new_block rem_size (new_meta new_block s);
                s2 = set_status new_block STATUS_FREE s1;
                s3 = set_prev new_block block s2;
                s4 = set_next new_block (next_m (meta s3 block)) s3;
                s5 = set_next block new_block s4;
                s6 = set_size block size' s5;
                nn = next_m (meta s6 new_block)
            in if nn \<noteq> NULL \<and> \<not> ok_meta s6 nn then Undef
               else
                 let s7 = (if nn \<noteq> NULL then set_prev nn new_block s6 else s6)
                 in Ok () (if last_p s7 = block then s7\<lparr>last_p := new_block\<rparr> else s7))"

subsection \<open>\<^verbatim>\<open>coalesce_blocks\<close> and \<^verbatim>\<open>coalesce_everywhere\<close>\<close>

partial_function (option) coalesce_loop :: "addr \<Rightarrow> state \<Rightarrow> unit outcome option" where
  "coalesce_loop block s =
     (let nxt = next_m (meta s block) in
      if nxt = NULL then Some (Ok () s)
      else if \<not> ok_meta s nxt then Some Undef
      else if status_m (meta s nxt) \<noteq> STATUS_FREE then Some (Ok () s)
      else
        let s1 = set_size block (size_m (meta s block) + size_m (meta s nxt)) s;
            s2 = set_next block (next_m (meta s1 (next_m (meta s1 block)))) s1;
            nn = next_m (meta s2 block)
        in if nn \<noteq> NULL then
             (if \<not> ok_meta s2 nn then Some Undef
              else coalesce_loop block (set_prev nn block s2))
           else coalesce_loop block (s2\<lparr>last_p := block\<rparr>))"

declare coalesce_loop.simps [code]

definition coalesce_blocks :: "addr \<Rightarrow> state \<Rightarrow> unit outcome option" where
  "coalesce_blocks block s =
     (if block = NULL then Some (Ok () s)
      else if \<not> ok_meta s block then Some Undef
      else if status_m (meta s block) \<noteq> STATUS_FREE then Some (Ok () s)
      else coalesce_loop block s)"

partial_function (option) coalesce_everywhere_loop :: "addr \<Rightarrow> state \<Rightarrow> unit outcome option" where
  "coalesce_everywhere_loop current s =
     (if current = NULL then Some (Ok () s)
      else if \<not> ok_meta s current then Some Undef
      else if status_m (meta s current) = STATUS_FREE then
        (case coalesce_blocks current s of
           None \<Rightarrow> None
         | Some (Ok u s') \<Rightarrow> coalesce_everywhere_loop (next_m (meta s' current)) s'
         | Some (Die msg) \<Rightarrow> Some (Die msg)
         | Some Undef \<Rightarrow> Some Undef)
      else coalesce_everywhere_loop (next_m (meta s current)) s)"

declare coalesce_everywhere_loop.simps [code]

definition coalesce_everywhere :: "state \<Rightarrow> unit outcome option" where
  "coalesce_everywhere s = coalesce_everywhere_loop (global_base s) s"

subsection \<open>\<^verbatim>\<open>find_best_fit\<close>\<close>

partial_function (option) find_best_fit_loop ::
    "size_t \<Rightarrow> addr \<Rightarrow> addr \<Rightarrow> size_t \<Rightarrow> state \<Rightarrow> (addr \<times> size_t) outcome option" where
  "find_best_fit_loop size' current best_fit best_fit_size s =
     (if current = NULL then Some (Ok (best_fit, best_fit_size) s)
      else if \<not> ok_meta s current then Some Undef
      else if status_m (meta s current) = STATUS_FREE \<and> size_m (meta s current) \<ge> size'
              \<and> size_m (meta s current) < best_fit_size
        then find_best_fit_loop size' (next_m (meta s current)) current (size_m (meta s current)) s
      else find_best_fit_loop size' (next_m (meta s current)) best_fit best_fit_size s)"

declare find_best_fit_loop.simps [code]

definition find_best_fit :: "size_t \<Rightarrow> state \<Rightarrow> addr outcome option" where
  "find_best_fit size' s =
     seq (find_best_fit_loop size' (global_base s) NULL SIZE_MAX s)
       (\<lambda>(best_fit, best_fit_size) s.
          if \<not> ok_meta s (last_p s) then Some Undef
          else if status_m (meta s (last_p s)) = STATUS_FREE \<and> size_m (meta s (last_p s)) < size'
                  \<and> best_fit_size > size' then
            (let missing_size = size' - size_m (meta s (last_p s));
                 (req, s1) = sbrk missing_size s
             in if req = FAILED then Some (Ok best_fit s1)
                else Some (Ok (last_p s1) (set_size (last_p s1) size' s1)))
          else Some (Ok best_fit s))"

subsection \<open>\<^verbatim>\<open>os_malloc\<close>\<close>

definition os_malloc :: "size_t \<Rightarrow> state \<Rightarrow> addr outcome option" where
  "os_malloc size' s =
     (if size' \<le> 0 then Some (Ok NULL s)
      else
        let blk_size = ALIGN (size' + META_SIZE) in
        if blk_size \<ge> MMAP_THRESHOLD then
          (let (block, s1) = mmap blk_size s in
           if block = FAILED then Some (Die ''mmap failed'')
           else if block \<noteq> NULL then
             (if \<not> valid_range s1 block META_SIZE then Some Undef
              else Some (Ok (block + META_SIZE)
                     (set_size block blk_size (set_status block STATUS_MAPPED (new_meta block s1)))))
           else Some (Ok (block + META_SIZE) s1))
        else if \<not> prealloc s then
          seq (Some (brk_block MMAP_THRESHOLD s)) (\<lambda>block s1.
            if \<not> ok_meta s1 block then Some Undef
            else
              seq (Some (if size_m (meta s1 block) > blk_size then split_block block blk_size s1
                         else Ok () s1)) (\<lambda>u s2.
                Some (Ok (block + META_SIZE)
                       (s2\<lparr>prealloc := True, global_base := block, last_p := block\<rparr>))))
        else
          seq (coalesce_everywhere s) (\<lambda>u s1.
          seq (find_best_fit blk_size s1) (\<lambda>block s2.
            if block \<noteq> NULL then
              (if \<not> ok_meta s2 block then Some Undef
               else
                 seq (Some (if size_m (meta s2 block) > blk_size then split_block block blk_size s2
                            else Ok () s2)) (\<lambda>u s3.
                   Some (Ok (block + META_SIZE) (set_status block STATUS_ALLOC s3))))
            else
              seq (Some (brk_block blk_size s2)) (\<lambda>block s3.
                Some (Ok (block + META_SIZE) s3)))))"

subsection \<open>\<^verbatim>\<open>os_free\<close>\<close>

definition os_free :: "addr \<Rightarrow> state \<Rightarrow> unit outcome" where
  "os_free ptr s =
     (if ptr = NULL then Ok () s
      else
        let block = ptr - META_SIZE in
        if \<not> ok_meta s block then Undef
        else if status_m (meta s block) = STATUS_FREE then Ok () s
        else if status_m (meta s block) = STATUS_MAPPED then
          (case munmap block (size_m (meta s block)) s of
             None \<Rightarrow> Undef
           | Some (res, s1) \<Rightarrow> if res < 0 then Die ''munmap failed'' else Ok () s1)
        else Ok () (set_status block STATUS_FREE s))"

subsection \<open>\<^verbatim>\<open>os_calloc\<close>\<close>

definition os_calloc :: "size_t \<Rightarrow> size_t \<Rightarrow> state \<Rightarrow> addr outcome option" where
  "os_calloc nmemb size' s =
     (if size' \<le> 0 \<or> nmemb \<le> 0 then Some (Ok NULL s)
      else
        let blk_size = ALIGN (size' * nmemb + META_SIZE) in
        if blk_size \<ge> page_size s then
          (let (block, s1) = mmap blk_size s in
           if block = FAILED then Some (Die ''mmap failed'')
           else
             seq (if block \<noteq> NULL then
                    (if \<not> valid_range s1 block META_SIZE then Some Undef
                     else Some (Ok () (set_size block blk_size
                                        (set_status block STATUS_MAPPED (new_meta block s1)))))
                  else Some (Ok () s1)) (\<lambda>u s2.
             seq (Some (memset (block + META_SIZE) 0 (blk_size - META_SIZE) s2)) (\<lambda>u s3.
               Some (Ok (block + META_SIZE) s3))))
        else
          seq (os_malloc (blk_size - META_SIZE) s) (\<lambda>block s1.
            if block \<noteq> NULL then
              seq (Some (memset block 0 (blk_size - META_SIZE) s1)) (\<lambda>u s2. Some (Ok block s2))
            else Some (Ok (block + META_SIZE) s1)))"

subsection \<open>\<^verbatim>\<open>os_realloc\<close>\<close>

definition int_of_size :: "size_t \<Rightarrow> size_t" where
  \<comment> \<open>the value passes through an \<^verbatim>\<open>int\<close> variable: truncated to 32 bits, then sign-extended\<close>
  "int_of_size v = scast (ucast v :: 32 word)"

definition os_realloc_in_place :: "addr \<Rightarrow> addr \<Rightarrow> size_t \<Rightarrow> size_t \<Rightarrow> state \<Rightarrow> addr outcome option" where
  \<comment> \<open>lines 292 to 327: everything after the relocation branch of \<^verbatim>\<open>os_realloc\<close>\<close>
  "os_realloc_in_place ptr block size' new_size s =
     (if \<not> ok_meta s block then Some Undef
      else if size_m (meta s block) \<ge> new_size then
        seq (Some (split_block block new_size s)) (\<lambda>u s1. Some (Ok ptr s1))
      else if block = last_p s then
        (let missing_size = int_of_size (new_size - size_m (meta s block));
             (new_ptr, s1) = sbrk missing_size s
         in if new_ptr = NULL then Some (Die ''sbrk failed'')
            else Some (Ok ptr (set_size block new_size s1)))
      else
        seq (coalesce_blocks block s) (\<lambda>u s1.
          if size_m (meta s1 block) \<ge> new_size then
            seq (Some (split_block block new_size s1)) (\<lambda>u s2. Some (Ok ptr s2))
          else
            seq (os_malloc size' s1) (\<lambda>new_ptr s2.
              if new_ptr = NULL then Some (Die ''os_malloc failed'')
              else
                let new_block = new_ptr - META_SIZE in
                if \<not> ok_meta s2 new_block then Some Undef
                else
                  seq (Some (memcpy new_ptr ptr (size_m (meta s2 new_block) - META_SIZE) s2)) (\<lambda>u s3.
                  seq (Some (os_free ptr s3)) (\<lambda>u s4.
                    Some (Ok new_ptr s4))))))"

definition os_realloc :: "addr \<Rightarrow> size_t \<Rightarrow> state \<Rightarrow> addr outcome option" where
  "os_realloc ptr size' s =
     (if size' \<le> 0 then seq (Some (os_free ptr s)) (\<lambda>u s1. Some (Ok NULL s1))
      else if ptr = NULL then os_malloc size' s
      else
        let block = ptr - META_SIZE;
            new_size = ALIGN (size' + META_SIZE)
        in if block = NULL then Some (Ok NULL s)
           else if \<not> ok_meta s block then Some Undef
           else if status_m (meta s block) = STATUS_FREE then Some (Ok NULL s)
           else if status_m (meta s block) = STATUS_MAPPED \<or> new_size \<ge> MMAP_THRESHOLD then
             seq (os_malloc size' s) (\<lambda>new_ptr s1.
               if new_ptr = NULL then Some (Die ''os_malloc failed'')
               else
                 seq (Some (memcpy new_ptr ptr (size_m (meta s1 block) - META_SIZE) s1)) (\<lambda>u s2.
                 seq (Some (os_free ptr s2)) (\<lambda>u s3.
                   os_realloc_in_place ptr block size' new_size s3)))
           else os_realloc_in_place ptr block size' new_size s)"

subsection \<open>A freshly started process\<close>

definition garbage :: "addr \<Rightarrow> 8 word" where
  \<comment> \<open>memory that has never been written\<close>
  "garbage a = 0xAA"

definition fresh :: "addr \<Rightarrow> state" where
  \<comment> \<open>the globals are zero, no header is known; the break is at \<open>0x1000000\<close> and may rise to \<open>limit\<close>\<close>
  "fresh limit =
     \<lparr>meta = (\<lambda>a. \<lparr>size_m = 0, status_m = STATUS_FREE, prev_m = NULL, next_m = NULL\<rparr>),
      is_meta = (\<lambda>a. False),
      mem = garbage,
      global_base = NULL, last_p = NULL, prealloc = False,
      brk0 = 0x1000000, brk = 0x1000000, brk_max = limit,
      maps = [], mmap_next = 0x7F0000000000, mmap_max = 0x7FFFFFFFF000,
      page_size = 4096\<rparr>"

section \<open>Call sequences used below\<close>

text \<open>
  Each sequence starts from a fresh process and returns the pointers it obtained together with
  the state it leaves.
\<close>

definition mapped_scenario :: "addr outcome option" where
  \<comment> \<open>\<^verbatim>\<open>p = os_malloc(131008)\<close>: the first small allocation, too large for the remainder to be split off\<close>
  "mapped_scenario = os_malloc 131008 (fresh 0x2000000)"

definition best_fit_scenario :: "(addr \<times> addr \<times> addr) outcome option" where
  \<comment> \<open>\<^verbatim>\<open>os_free(os_malloc(100)); a = os_malloc(1000); b = os_malloc(2000); c = os_malloc(127000); os_free(b)\<close>\<close>
  "best_fit_scenario =
     seq (os_malloc 100 (fresh 0x2000000)) (\<lambda>a s.
     seq (Some (os_free a s)) (\<lambda>u s.
     seq (os_malloc 1000 s) (\<lambda>a s.
     seq (os_malloc 2000 s) (\<lambda>b s.
     seq (os_malloc 127000 s) (\<lambda>c s.
     seq (Some (os_free b s)) (\<lambda>u s. Some (Ok (a, b, c) s)))))))"

definition tail_scenario :: "(addr \<times> addr) outcome option" where
  \<comment> \<open>\<^verbatim>\<open>os_free(os_malloc(100)); a = os_malloc(131000); b = os_malloc(8)\<close>, in a process whose break
     cannot rise beyond the first 128 KiB\<close>
  "tail_scenario =
     seq (os_malloc 100 (fresh (0x1000000 + 131072))) (\<lambda>a s.
     seq (Some (os_free a s)) (\<lambda>u s.
     seq (os_malloc 131000 s) (\<lambda>a s.
     seq (os_malloc 8 s) (\<lambda>b s. Some (Ok (a, b) s)))))"

definition grow_scenario :: "addr outcome option" where
  \<comment> \<open>\<^verbatim>\<open>os_free(os_malloc(100)); p = os_malloc(8)\<close>\<close>
  "grow_scenario =
     seq (os_malloc 100 (fresh 0x2000000)) (\<lambda>a s.
     seq (Some (os_free a s)) (\<lambda>u s. os_malloc 8 s))"

definition relocate_scenario :: "(addr \<times> addr \<times> addr) outcome option" where
  \<comment> \<open>\<^verbatim>\<open>os_free(os_malloc(131008)); a = os_malloc(129000); c = os_malloc(8); d = os_malloc(1968); os_free(a)\<close>\<close>
  "relocate_scenario =
     seq (os_malloc 131008 (fresh 0x2000000)) (\<lambda>x s.
     seq (Some (os_free x s)) (\<lambda>u s.
     seq (os_malloc 129000 s) (\<lambda>a s.
     seq (os_malloc 8 s) (\<lambda>c s.
     seq (os_malloc 1968 s) (\<lambda>d s.
     seq (Some (os_free a s)) (\<lambda>u s. Some (Ok (a, c, d) s)))))))"

definition coalesce_scenario :: "(addr \<times> addr \<times> addr) outcome option" where
  \<comment> \<open>\<^verbatim>\<open>a = os_malloc(100); b = os_malloc(200); c = os_malloc(300); os_free(a); os_free(b)\<close>\<close>
  "coalesce_scenario =
     seq (os_malloc 100 (fresh 0x2000000)) (\<lambda>a s.
     seq (os_malloc 200 s) (\<lambda>b s.
     seq (os_malloc 300 s) (\<lambda>c s.
     seq (Some (os_free a s)) (\<lambda>u s.
     seq (Some (os_free b s)) (\<lambda>u s. Some (Ok (a, b, c) s))))))"

definition freed_scenario :: "addr outcome option" where
  \<comment> \<open>\<^verbatim>\<open>p = os_malloc(100); os_free(p)\<close>\<close>
  "freed_scenario =
     seq (os_malloc 100 (fresh 0x2000000)) (\<lambda>a s.
     seq (Some (os_free a s)) (\<lambda>u s. Some (Ok a s)))"

section \<open>Block lists\<close>

text \<open>
  \<open>block_list s p xs\<close>: following the \<^verbatim>\<open>next\<close> links from \<open>p\<close> visits the headers at the
  addresses \<open>xs\<close>, in this order, and ends at the null pointer.
\<close>

fun block_list :: "state \<Rightarrow> addr \<Rightarrow> addr list \<Rightarrow> bool" where
  "block_list s p [] \<longleftrightarrow> p = NULL"
| "block_list s p (x # xs) \<longleftrightarrow> p = x \<and> ok_meta s x \<and> block_list s (next_m (meta s x)) xs"

definition is_free :: "state \<Rightarrow> addr \<Rightarrow> bool" where
  "is_free s x \<longleftrightarrow> status_m (meta s x) = STATUS_FREE"

fun no_adjacent_free :: "state \<Rightarrow> addr list \<Rightarrow> bool" where
  "no_adjacent_free s (x # y # zs) \<longleftrightarrow> \<not> (is_free s x \<and> is_free s y) \<and> no_adjacent_free s (y # zs)"
| "no_adjacent_free s xs \<longleftrightarrow> True"

definition total_bytes :: "state \<Rightarrow> addr list \<Rightarrow> size_t" where
  "total_bytes s xs = sum_list (map (\<lambda>x. size_m (meta s x)) xs)"

definition extent :: "state \<Rightarrow> addr list \<Rightarrow> nat" where
  "extent s xs = sum_list (map (\<lambda>x. unat (size_m (meta s x))) xs)"

text \<open>
  \<open>fits s b sz\<close>: the header at \<open>b\<close> can be read and its block holds \<open>sz\<close> bytes with less
  than a header plus 8 bytes to spare, so that \<^verbatim>\<open>split_block\<close> leaves it alone.
\<close>

definition fits :: "state \<Rightarrow> addr \<Rightarrow> size_t \<Rightarrow> bool" where
  "fits s b sz \<longleftrightarrow>
     ok_meta s b \<and> sz \<le> size_m (meta s b) \<and> size_m (meta s b) - sz < META_SIZE + ALIGNMENT"

section \<open>Properties\<close>

lemmas const_defs = FAILED_def ALIGNMENT_def META_SIZE_def MMAP_THRESHOLD_def SIZE_MAX_def

subsection \<open>Header updates and list traversal\<close>

lemma ok_meta_set [simp]:
  "ok_meta (set_size p v s) = ok_meta s"
  "ok_meta (set_next p w s) = ok_meta s"
  "ok_meta (set_prev p w s) = ok_meta s"
  "ok_meta (set_status p st s) = ok_meta s"
  "ok_meta (s\<lparr>last_p := q\<rparr>) = ok_meta s"
  by (simp_all add: fun_eq_iff ok_meta_def valid_range_def set_size_def set_next_def set_prev_def set_status_def)

lemma meta_set_size [simp]:
  "size_m (meta (set_size p v s) q) = (if q = p then v else size_m (meta s q))"
  "next_m (meta (set_size p v s) q) = next_m (meta s q)"
  "status_m (meta (set_size p v s) q) = status_m (meta s q)"
  "global_base (set_size p v s) = global_base s"
  by (simp_all add: set_size_def)

lemma meta_set_next [simp]:
  "size_m (meta (set_next p w s) q) = size_m (meta s q)"
  "next_m (meta (set_next p w s) q) = (if q = p then w else next_m (meta s q))"
  "status_m (meta (set_next p w s) q) = status_m (meta s q)"
  "global_base (set_next p w s) = global_base s"
  by (simp_all add: set_next_def)

lemma meta_set_prev [simp]:
  "size_m (meta (set_prev p w s) q) = size_m (meta s q)"
  "next_m (meta (set_prev p w s) q) = next_m (meta s q)"
  "status_m (meta (set_prev p w s) q) = status_m (meta s q)"
  "global_base (set_prev p w s) = global_base s"
  by (simp_all add: set_prev_def)

lemma block_list_frame:
  "\<forall>x \<in> set xs. ok_meta s' x = ok_meta s x \<and> next_m (meta s' x) = next_m (meta s x)
   \<Longrightarrow> block_list s' p xs = block_list s p xs"
  by (induction xs arbitrary: p) auto

lemma block_list_unique:
  "block_list s p xs \<Longrightarrow> block_list s p ys \<Longrightarrow> xs = ys"
proof (induction xs arbitrary: p ys)
  case Nil
  then show ?case by (cases ys) (auto simp: ok_meta_def)
next
  case (Cons x xs)
  then show ?case by (cases ys) (auto simp: ok_meta_def)
qed

lemma block_list_append:
  "block_list s p (as @ x # bs) \<Longrightarrow> block_list s x (x # bs)"
  by (induction as arbitrary: p) auto

lemma block_list_distinct:
  "block_list s p xs \<Longrightarrow> distinct xs"
proof (induction xs arbitrary: p)
  case Nil
  then show ?case by simp
next
  case (Cons x xs)
  have "x \<notin> set xs"
  proof
    assume "x \<in> set xs"
    then obtain as bs where xs: "xs = as @ x # bs" by (auto dest: split_list)
    with Cons.prems have "block_list s (next_m (meta s x)) (as @ x # bs)" by simp
    then have "block_list s x (x # bs)" by (rule block_list_append)
    moreover from Cons.prems have "block_list s x (x # xs)" by simp
    ultimately have "x # bs = x # xs" by (rule block_list_unique)
    with xs show False by simp
  qed
  moreover from Cons have "distinct xs" by auto
  ultimately show ?case by simp
qed

lemma coalesce_loop_run:
  assumes "block_list s b (b # xs)" and "distinct (b # xs)"
  shows "\<exists>s'. coalesce_loop b s = Some (Ok () s') \<and>
      block_list s' b (b # dropWhile (is_free s) xs) \<and>
      size_m (meta s' b) = size_m (meta s b) + total_bytes s (takeWhile (is_free s) xs) \<and>
      (\<forall>a. a \<noteq> b \<longrightarrow> size_m (meta s' a) = size_m (meta s a) \<and> next_m (meta s' a) = next_m (meta s a)) \<and>
      (\<forall>a. status_m (meta s' a) = status_m (meta s a)) \<and>
      ok_meta s' = ok_meta s \<and> global_base s' = global_base s"
  using assms
proof (induction xs arbitrary: s)
  case Nil
  then have "next_m (meta s b) = NULL" by simp
  then have "coalesce_loop b s = Some (Ok () s)"
    by (subst coalesce_loop.simps) simp
  with Nil show ?case by (simp add: total_bytes_def)
next
  case (Cons x xs)
  from Cons.prems have nx: "next_m (meta s b) = x" and okb: "ok_meta s b" and okx: "ok_meta s x"
    and rest: "block_list s (next_m (meta s x)) xs" and xb: "x \<noteq> b" and bxs: "b \<notin> set xs"
    and xxs: "x \<notin> set xs" and dxs: "distinct xs"
    by auto
  from okx have xn: "x \<noteq> NULL" by (simp add: ok_meta_def)
  show ?case
  proof (cases "is_free s x")
    case False
    with nx xn okx have "coalesce_loop b s = Some (Ok () s)"
      by (subst coalesce_loop.simps) (simp add: is_free_def)
    with False Cons.prems show ?thesis by (simp add: total_bytes_def)
  next
    case True
    define nn where "nn = next_m (meta s x)"
    define s2 where "s2 = set_next b nn (set_size b (size_m (meta s b) + size_m (meta s x)) s)"
    define s3 where "s3 = (if nn \<noteq> NULL then set_prev nn b s2 else s2\<lparr>last_p := b\<rparr>)"
    have oknn: "nn \<noteq> NULL \<Longrightarrow> ok_meta s nn"
      using rest unfolding nn_def by (cases xs) auto
    have step: "coalesce_loop b s = coalesce_loop b s3"
      using nx xn okx True xb oknn
      by (subst coalesce_loop.simps) (simp add: is_free_def Let_def s3_def s2_def nn_def)
    have s3_size: "\<And>a. size_m (meta s3 a) = (if a = b then size_m (meta s b) + size_m (meta s x) else size_m (meta s a))"
      and s3_next: "\<And>a. next_m (meta s3 a) = (if a = b then nn else next_m (meta s a))"
      and s3_status: "\<And>a. status_m (meta s3 a) = status_m (meta s a)"
      and s3_ok: "ok_meta s3 = ok_meta s"
      and s3_gb: "global_base s3 = global_base s"
      by (simp_all add: s3_def s2_def)
    have "block_list s3 nn xs = block_list s nn xs"
      by (rule block_list_frame) (use bxs in \<open>auto simp: s3_next s3_ok\<close>)
    with rest have "block_list s3 b (b # xs)"
      by (simp add: s3_next s3_ok okb nn_def)
    moreover from bxs dxs have "distinct (b # xs)" by simp
    ultimately obtain s' where res: "coalesce_loop b s3 = Some (Ok () s')"
      and bl: "block_list s' b (b # dropWhile (is_free s3) xs)"
      and sz: "size_m (meta s' b) = size_m (meta s3 b) + total_bytes s3 (takeWhile (is_free s3) xs)"
      and fr: "\<forall>a. a \<noteq> b \<longrightarrow> size_m (meta s' a) = size_m (meta s3 a) \<and> next_m (meta s' a) = next_m (meta s3 a)"
      and st: "\<forall>a. status_m (meta s' a) = status_m (meta s3 a)"
      and ok: "ok_meta s' = ok_meta s3" and gb: "global_base s' = global_base s3"
      using Cons.IH [of s3] by blast
    have fe: "is_free s3 = is_free s" by (simp add: fun_eq_iff is_free_def s3_status)
    have tot: "total_bytes s3 (takeWhile (is_free s) xs) = total_bytes s (takeWhile (is_free s) xs)"
      unfolding total_bytes_def
      by (rule arg_cong [where f = sum_list], rule map_cong [OF refl])
         (use bxs in \<open>auto simp: s3_size dest: set_takeWhileD\<close>)
    from sz have sz': "size_m (meta s' b) =
        size_m (meta s b) + (size_m (meta s x) + total_bytes s (takeWhile (is_free s) xs))"
      by (simp add: fe tot s3_size add.assoc)
    from True have tw: "total_bytes s (takeWhile (is_free s) (x # xs)) =
        size_m (meta s x) + total_bytes s (takeWhile (is_free s) xs)"
      by (simp add: total_bytes_def)
    from bl True have bl': "block_list s' b (b # dropWhile (is_free s) (x # xs))"
      by (simp add: fe)
    from fr have fr': "\<forall>a. a \<noteq> b \<longrightarrow>
        size_m (meta s' a) = size_m (meta s a) \<and> next_m (meta s' a) = next_m (meta s a)"
      by (simp add: s3_size s3_next)
    from st have st': "\<forall>a. status_m (meta s' a) = status_m (meta s a)"
      by (simp add: s3_status)
    show ?thesis
      using res bl' sz' fr' st' ok gb
      by (simp only: step tw s3_ok s3_gb) blast
  qed
qed


lemma total_Cons [simp]: "total_bytes s (x # xs) = size_m (meta s x) + total_bytes s xs"
  by (simp add: total_bytes_def)

lemma total_Nil [simp]: "total_bytes s [] = 0"
  by (simp add: total_bytes_def)

lemma total_append: "total_bytes s (xs @ ys) = total_bytes s xs + total_bytes s ys"
  by (simp add: total_bytes_def)

lemma total_frame:
  "\<forall>x \<in> set xs. size_m (meta s' x) = size_m (meta s x) \<Longrightarrow> total_bytes s' xs = total_bytes s xs"
  by (induction xs) auto

lemma extent_Cons [simp]: "extent s (x # xs) = unat (size_m (meta s x)) + extent s xs"
  by (simp add: extent_def)

lemma extent_Nil [simp]: "extent s [] = 0"
  by (simp add: extent_def)

lemma extent_append: "extent s (xs @ ys) = extent s xs + extent s ys"
  by (simp add: extent_def)

lemma extent_frame:
  "\<forall>x \<in> set xs. size_m (meta s' x) = size_m (meta s x) \<Longrightarrow> extent s' xs = extent s xs"
  by (induction xs) auto

lemma unat_total_bytes:
  "extent s xs < 2 ^ 64 \<Longrightarrow> unat (total_bytes s xs) = extent s xs"
proof (induction xs)
  case Nil
  then show ?case by simp
next
  case (Cons x xs)
  then have "unat (total_bytes s xs) = extent s xs" by simp
  moreover from Cons.prems have "unat (size_m (meta s x)) + extent s xs < 2 ^ LENGTH(64)" by simp
  ultimately show ?case by (simp add: unat_add_lem [THEN iffD1])
qed

lemma no_adjacent_free_Cons:
  "no_adjacent_free s (x # ys) \<longleftrightarrow>
     (case ys of [] \<Rightarrow> True | y # zs \<Rightarrow> \<not> (is_free s x \<and> is_free s y)) \<and> no_adjacent_free s ys"
  by (cases ys) simp_all

lemma coalesce_everywhere_loop_run:
  assumes "block_list s cur xs"
  shows "\<exists>s' ys. coalesce_everywhere_loop cur s = Some (Ok () s') \<and>
      block_list s' cur ys \<and> no_adjacent_free s' ys \<and> total_bytes s' ys = total_bytes s xs \<and>
      (extent s xs < 2 ^ 64 \<longrightarrow> extent s' ys = extent s xs) \<and>
      set ys \<subseteq> set xs \<and>
      (\<forall>a. a \<notin> set xs \<longrightarrow> size_m (meta s' a) = size_m (meta s a) \<and> next_m (meta s' a) = next_m (meta s a)) \<and>
      (\<forall>a. status_m (meta s' a) = status_m (meta s a)) \<and>
      ok_meta s' = ok_meta s \<and> global_base s' = global_base s"
  using assms
proof (induction "length xs" arbitrary: xs cur s rule: less_induct)
  case less
  show ?case
  proof (cases xs)
    case Nil
    with less.prems have "cur = NULL" by simp
    then have "coalesce_everywhere_loop cur s = Some (Ok () s)"
      by (subst coalesce_everywhere_loop.simps) simp
    with Nil less.prems show ?thesis
      by (intro exI [of _ s] exI [of _ "[]"]) simp
  next
    case (Cons x rest)
    with less.prems have cur: "cur = x" and okx: "ok_meta s x"
      and rest: "block_list s (next_m (meta s x)) rest" by auto
    from okx have xn: "x \<noteq> NULL" by (simp add: ok_meta_def)
    have dist: "distinct (x # rest)" using block_list_distinct [OF less.prems] Cons by simp
    show ?thesis
    proof (cases "is_free s x")
      case False
      have step: "coalesce_everywhere_loop cur s = coalesce_everywhere_loop (next_m (meta s x)) s"
        using cur xn okx False by (subst coalesce_everywhere_loop.simps) (simp add: is_free_def)
      from Cons have "length rest < length xs" by simp
      from less.hyps [OF this rest] obtain s' ys where
        res: "coalesce_everywhere_loop (next_m (meta s x)) s = Some (Ok () s')"
        and bl: "block_list s' (next_m (meta s x)) ys" and naf: "no_adjacent_free s' ys"
        and tot: "total_bytes s' ys = total_bytes s rest" and sub: "set ys \<subseteq> set rest"
        and ext: "extent s rest < 2 ^ 64 \<longrightarrow> extent s' ys = extent s rest"
        and fr: "\<forall>a. a \<notin> set rest \<longrightarrow> size_m (meta s' a) = size_m (meta s a) \<and> next_m (meta s' a) = next_m (meta s a)"
        and st: "\<forall>a. status_m (meta s' a) = status_m (meta s a)"
        and ok: "ok_meta s' = ok_meta s" and gb: "global_base s' = global_base s"
        by blast
      from dist fr have x_same: "size_m (meta s' x) = size_m (meta s x)" "next_m (meta s' x) = next_m (meta s x)"
        by auto
      have "block_list s' cur (x # ys)" using bl okx by (simp add: cur ok x_same)
      moreover have "no_adjacent_free s' (x # ys)"
        using naf False st by (simp add: no_adjacent_free_Cons is_free_def split: list.splits)
      moreover have "total_bytes s' (x # ys) = total_bytes s xs" by (simp add: Cons tot x_same)
      moreover have "extent s xs < 2 ^ 64 \<longrightarrow> extent s' (x # ys) = extent s xs"
        using ext by (simp add: Cons x_same)
      moreover have "set (x # ys) \<subseteq> set xs" using sub Cons by auto
      moreover have "\<forall>a. a \<notin> set xs \<longrightarrow> size_m (meta s' a) = size_m (meta s a) \<and> next_m (meta s' a) = next_m (meta s a)"
        using fr Cons by auto
      ultimately show ?thesis using res st ok gb unfolding step by blast
    next
      case True
      define rest' where "rest' = dropWhile (is_free s) rest"
      from less.prems Cons cur have "block_list s x (x # rest)" by simp
      from coalesce_loop_run [OF this dist] obtain s1 where
        r1: "coalesce_loop x s = Some (Ok () s1)"
        and bl1: "block_list s1 x (x # rest')"
        and sz1: "size_m (meta s1 x) = size_m (meta s x) + total_bytes s (takeWhile (is_free s) rest)"
        and fr1: "\<forall>a. a \<noteq> x \<longrightarrow> size_m (meta s1 a) = size_m (meta s a) \<and> next_m (meta s1 a) = next_m (meta s a)"
        and st1: "\<forall>a. status_m (meta s1 a) = status_m (meta s a)"
        and ok1: "ok_meta s1 = ok_meta s" and gb1: "global_base s1 = global_base s"
        unfolding rest'_def by blast
      have cb: "coalesce_blocks x s = Some (Ok () s1)"
        using xn okx True r1 by (simp add: coalesce_blocks_def is_free_def)
      have step: "coalesce_everywhere_loop cur s = coalesce_everywhere_loop (next_m (meta s1 x)) s1"
        using cur xn okx True cb by (subst coalesce_everywhere_loop.simps) (simp add: is_free_def)
      have sub1: "set rest' \<subseteq> set rest" unfolding rest'_def by (auto dest: set_dropWhileD)
      have "length rest' \<le> length rest" unfolding rest'_def by (rule length_dropWhile_le)
      with Cons have len: "length rest' < length xs" by simp
      from bl1 have bl1': "block_list s1 (next_m (meta s1 x)) rest'" by simp
      from less.hyps [OF len bl1'] obtain s' ys where
        res: "coalesce_everywhere_loop (next_m (meta s1 x)) s1 = Some (Ok () s')"
        and bl: "block_list s' (next_m (meta s1 x)) ys" and naf: "no_adjacent_free s' ys"
        and tot: "total_bytes s' ys = total_bytes s1 rest'" and sub: "set ys \<subseteq> set rest'"
        and ext: "extent s1 rest' < 2 ^ 64 \<longrightarrow> extent s' ys = extent s1 rest'"
        and fr: "\<forall>a. a \<notin> set rest' \<longrightarrow> size_m (meta s' a) = size_m (meta s1 a) \<and> next_m (meta s' a) = next_m (meta s1 a)"
        and st: "\<forall>a. status_m (meta s' a) = status_m (meta s1 a)"
        and ok: "ok_meta s' = ok_meta s1" and gb: "global_base s' = global_base s1"
        by blast
      from dist sub1 have xr: "x \<notin> set rest'" by auto
      with fr have x_same: "size_m (meta s' x) = size_m (meta s1 x)" "next_m (meta s' x) = next_m (meta s1 x)"
        by auto
      have "block_list s' cur (x # ys)" using bl okx by (simp add: cur ok ok1 x_same)
      moreover have "no_adjacent_free s' (x # ys)"
      proof (cases ys)
        case Nil
        then show ?thesis by simp
      next
        case (Cons y zs)
        with bl have y: "y = next_m (meta s1 x)" and "ok_meta s' y" by auto
        then have "y \<noteq> NULL" by (simp add: ok_meta_def)
        with bl1' y obtain rs where r: "rest' = y # rs" by (cases rest') auto
        then have "rest' \<noteq> []" by simp
        then have "\<not> is_free s (hd rest')" unfolding rest'_def by (metis hd_dropWhile)
        with r have "\<not> is_free s y" by simp
        with st st1 have "\<not> is_free s' y" by (simp add: is_free_def)
        with naf Cons show ?thesis by simp
      qed
      moreover have "total_bytes s' (x # ys) = total_bytes s xs"
      proof -
        have "total_bytes s1 rest' = total_bytes s rest'"
          by (rule total_frame) (use fr1 xr in auto)
        moreover have "total_bytes s rest = total_bytes s (takeWhile (is_free s) rest) + total_bytes s rest'"
          unfolding rest'_def by (simp flip: total_append)
        ultimately show ?thesis by (simp add: Cons tot x_same sz1 add.assoc)
      qed
      moreover have "extent s xs < 2 ^ 64 \<longrightarrow> extent s' (x # ys) = extent s xs"
      proof
        assume small: "extent s xs < 2 ^ 64"
        have split: "extent s rest = extent s (takeWhile (is_free s) rest) + extent s rest'"
          unfolding rest'_def by (simp flip: extent_append)
        have e1: "extent s1 rest' = extent s rest'"
          by (rule extent_frame) (use fr1 xr in auto)
        with small split Cons ext have e2: "extent s' ys = extent s rest'" by simp
        from small split Cons have "extent s (takeWhile (is_free s) rest) < 2 ^ 64" by simp
        then have "unat (total_bytes s (takeWhile (is_free s) rest)) = extent s (takeWhile (is_free s) rest)"
          by (rule unat_total_bytes)
        moreover from small split Cons
        have "unat (size_m (meta s x)) + extent s (takeWhile (is_free s) rest) < 2 ^ LENGTH(64)"
          by simp
        ultimately have "unat (size_m (meta s1 x)) =
            unat (size_m (meta s x)) + extent s (takeWhile (is_free s) rest)"
          by (simp add: sz1 unat_add_lem [THEN iffD1])
        with e2 split show "extent s' (x # ys) = extent s xs" by (simp add: Cons x_same)
      qed
      moreover have "set (x # ys) \<subseteq> set xs" using sub sub1 Cons by auto
      moreover have "\<forall>a. a \<notin> set xs \<longrightarrow> size_m (meta s' a) = size_m (meta s a) \<and> next_m (meta s' a) = next_m (meta s a)"
        using fr fr1 sub1 Cons by auto
      moreover have "\<forall>a. status_m (meta s' a) = status_m (meta s a)" using st st1 by simp
      ultimately show ?thesis using res ok ok1 gb gb1 unfolding step by (metis (no_types))
    qed
  qed
qed

subsection \<open>Coalescing\<close>

text \<open>
  Claim C5. For every block list (the chain of \<^verbatim>\<open>next\<close> links from \<^verbatim>\<open>global_base\<close> that ends at
  the null pointer), \<^verbatim>\<open>coalesce_everywhere\<close> terminates, and in the list it leaves no two
  neighbours are both free. The sum of the block sizes is unchanged: as a \<^verbatim>\<open>size_t\<close> sum
  always, and as a sum of natural numbers whenever that sum fits into 64 bits.
\<close>

theorem coalesce_everywhere_no_adjacent_free:
  assumes "block_list s (global_base s) xs"
  shows "\<exists>s' ys. coalesce_everywhere s = Some (Ok () s') \<and>
      block_list s' (global_base s') ys \<and> no_adjacent_free s' ys \<and>
      total_bytes s' ys = total_bytes s xs \<and>
      (extent s xs < 2 ^ 64 \<longrightarrow> extent s' ys = extent s xs)"
proof -
  from coalesce_everywhere_loop_run [OF assms] obtain s' ys where
    "coalesce_everywhere_loop (global_base s) s = Some (Ok () s')"
    "block_list s' (global_base s) ys" "no_adjacent_free s' ys"
    "total_bytes s' ys = total_bytes s xs"
    "extent s xs < 2 ^ 64 \<longrightarrow> extent s' ys = extent s xs"
    "global_base s' = global_base s"
    by blast
  then show ?thesis unfolding coalesce_everywhere_def by auto
qed

theorem coalesce_everywhere_no_adjacent_free_witness:
  "case coalesce_scenario of
     Some (Ok (a, b, c) s) \<Rightarrow>
       block_list s (global_base s) [a - 32, b - 32, c - 32, c + 304] \<and>
       \<not> no_adjacent_free s [a - 32, b - 32, c - 32, c + 304] \<and>
       extent s [a - 32, b - 32, c - 32, c + 304] = 131072 \<and>
       (\<exists>s' ys. coalesce_everywhere s = Some (Ok () s') \<and>
          block_list s' (global_base s') ys \<and> no_adjacent_free s' ys \<and>
          total_bytes s' ys = 131072 \<and> extent s' ys = 131072)
   | _ \<Rightarrow> False"
proof -
  have "case coalesce_scenario of
     Some (Ok (a, b, c) s) \<Rightarrow>
       block_list s (global_base s) [a - 32, b - 32, c - 32, c + 304] \<and>
       \<not> no_adjacent_free s [a - 32, b - 32, c - 32, c + 304] \<and>
       size_m (meta s (a - 32)) = 136 \<and> size_m (meta s (b - 32)) = 232 \<and>
       size_m (meta s (c - 32)) = 336 \<and> size_m (meta s (c + 304)) = 130368
   | _ \<Rightarrow> False"
    by code_simp
  then obtain a b c s where eq: "coalesce_scenario = Some (Ok (a, b, c) s)"
    and h: "block_list s (global_base s) [a - 32, b - 32, c - 32, c + 304]"
    and n: "\<not> no_adjacent_free s [a - 32, b - 32, c - 32, c + 304]"
    and sz: "size_m (meta s (a - 32)) = 136" "size_m (meta s (b - 32)) = 232"
      "size_m (meta s (c - 32)) = 336" "size_m (meta s (c + 304)) = 130368"
    by (auto split: option.splits outcome.splits)
  from sz have e: "extent s [a - 32, b - 32, c - 32, c + 304] = 131072"
    and t: "total_bytes s [a - 32, b - 32, c - 32, c + 304] = 131072"
    by (simp_all add: extent_def total_bytes_def)
  from coalesce_everywhere_no_adjacent_free [OF h] e t
  have "\<exists>s' ys. coalesce_everywhere s = Some (Ok () s') \<and>
          block_list s' (global_base s') ys \<and> no_adjacent_free s' ys \<and>
          total_bytes s' ys = 131072 \<and> extent s' ys = 131072"
    by auto
  with h n e show ?thesis by (simp add: eq)
qed

subsection \<open>What the operations leave behind\<close>

lemma os_fields_set [simp]:
  "brk (set_size p v s) = brk s" "brk (set_next p w s) = brk s"
  "brk (set_prev p w s) = brk s" "brk (set_status p st s) = brk s"
  "brk (new_meta p s) = brk s"
  "last_p (set_size p v s) = last_p s" "last_p (set_next p w s) = last_p s"
  "last_p (set_prev p w s) = last_p s" "last_p (set_status p st s) = last_p s"
  "last_p (new_meta p s) = last_p s"
  by (simp_all add: set_size_def set_next_def set_prev_def set_status_def new_meta_def)

lemma meta_set_status [simp]:
  "size_m (meta (set_status p st s) q) = size_m (meta s q)"
  "next_m (meta (set_status p st s) q) = next_m (meta s q)"
  "status_m (meta (set_status p st s) q) = (if q = p then st else status_m (meta s q))"
  by (simp_all add: set_status_def)

lemma meta_new_meta [simp]: "meta (new_meta p s) = meta s"
  by (simp add: new_meta_def)

lemma ok_meta_new_meta:
  "ok_meta (new_meta p s) q \<longleftrightarrow> q \<noteq> NULL \<and> (q = p \<or> is_meta s q) \<and> valid_range s q META_SIZE"
  by (auto simp: ok_meta_def new_meta_def valid_range_def)

lemma ok_meta_not_wrap: "ok_meta s b \<Longrightarrow> b + META_SIZE \<noteq> NULL"
proof
  assume ok: "ok_meta s b" and z: "b + META_SIZE = NULL"
  from ok have "uint b + uint META_SIZE < 2 ^ 64" by (simp add: ok_meta_def valid_range_def)
  moreover from z have "b = - META_SIZE" by (simp add: eq_neg_iff_add_eq_0)
  ultimately show False by (simp add: META_SIZE_def)
qed

lemma coalesce_loop_brk:
  assumes "coalesce_loop b s = Some (Ok u s')"
  shows "brk s' = brk s"
proof -
  have "\<forall>u s'. y = Ok u s' \<longrightarrow> brk s' = brk s" if "coalesce_loop b s = Some y" for y
    by (rule coalesce_loop.raw_induct [OF _ that]) (auto simp: Let_def split: if_splits)
  with assms show ?thesis by blast
qed

lemma coalesce_blocks_brk:
  "coalesce_blocks b s = Some (Ok u s') \<Longrightarrow> brk s' = brk s"
  by (auto simp: coalesce_blocks_def split: if_splits dest: coalesce_loop_brk)

lemma coalesce_everywhere_loop_brk:
  assumes "coalesce_everywhere_loop c s = Some (Ok u s')"
  shows "brk s' = brk s"
proof -
  have "\<forall>u s'. y = Ok u s' \<longrightarrow> brk s' = brk s" if "coalesce_everywhere_loop c s = Some y" for y
    by (rule coalesce_everywhere_loop.raw_induct [OF _ that])
       (auto split: if_splits option.splits outcome.splits dest: coalesce_blocks_brk)
  with assms show ?thesis by blast
qed

lemma find_best_fit_loop_post:
  assumes "find_best_fit_loop sz cur bf bfs s = Some (Ok (bf', bfs') s')"
    and "bf = NULL \<or> sz \<le> size_m (meta s bf)"
  shows "s' = s \<and> (bf' = NULL \<or> sz \<le> size_m (meta s bf'))"
proof -
  have "\<forall>bf' bfs' s'. y = Ok (bf', bfs') s' \<longrightarrow> (bf = NULL \<or> sz \<le> size_m (meta s bf)) \<longrightarrow>
      s' = s \<and> (bf' = NULL \<or> sz \<le> size_m (meta s bf'))"
    if "find_best_fit_loop sz cur bf bfs s = Some y" for y
    by (rule find_best_fit_loop.raw_induct [OF _ that]) (auto split: if_splits)
  with assms show ?thesis by blast
qed

lemma sbrk_fields [simp]:
  "meta (snd (sbrk i s)) = meta s" "last_p (snd (sbrk i s)) = last_p s"
  "fst (sbrk i s) = FAILED \<Longrightarrow> brk s \<noteq> FAILED \<Longrightarrow> snd (sbrk i s) = s"
  "fst (sbrk 0 s) = brk s" "snd (sbrk 0 s) = s"
  by (auto simp: sbrk_def Let_def)

lemma find_best_fit_post:
  assumes "find_best_fit sz s = Some (Ok b s')" and "brk s \<noteq> FAILED"
  shows "(b \<noteq> NULL \<longrightarrow> sz \<le> size_m (meta s' b)) \<and> (b = NULL \<longrightarrow> brk s' = brk s)"
proof -
  from assms(1) obtain bf bfs s0 where
    loop: "find_best_fit_loop sz (global_base s) NULL SIZE_MAX s = Some (Ok (bf, bfs) s0)"
    by (auto simp: find_best_fit_def seq_def split: option.splits outcome.splits)
  from find_best_fit_loop_post [OF loop] have s0: "s0 = s" and bf: "bf = NULL \<or> sz \<le> size_m (meta s bf)"
    by simp_all
  obtain req s1 where sb: "sbrk (sz - size_m (meta s (last_p s))) s = (req, s1)"
    by (cases "sbrk (sz - size_m (meta s (last_p s))) s")
  then have m1: "meta s1 = meta s" "last_p s1 = last_p s"
    and f1: "req = FAILED \<Longrightarrow> s1 = s"
    using sbrk_fields(1-3) [of "sz - size_m (meta s (last_p s))" s] assms(2) by simp_all
  from assms(1) loop s0 sb bf m1 f1 show ?thesis
    by (auto simp: find_best_fit_def seq_def Let_def ok_meta_def split: if_splits)
qed

lemma brk_block_post:
  assumes "brk_block sz s = Ok b s'" and "sz \<noteq> 0" and "brk s \<noteq> FAILED"
  shows "ok_meta s' b \<and> status_m (meta s' b) = STATUS_ALLOC \<and> size_m (meta s' b) = sz"
proof -
  obtain req s1 where sb: "sbrk sz s = (req, s1)" by (cases "sbrk sz s")
  have z: "sbrk 0 s = (brk s, s)" by (simp add: sbrk_def)
  from assms sb z show ?thesis
    by (auto simp: brk_block_def Let_def ok_meta_new_meta ok_meta_def [of "_\<lparr>last_p := _\<rparr>"]
        valid_range_def split: if_splits)
qed


lemma ok_meta_new_meta_mono [simp]: "ok_meta s q \<Longrightarrow> ok_meta (new_meta p s) q"
  by (simp add: ok_meta_new_meta) (simp add: ok_meta_def)

lemma split_block_post:
  assumes "split_block b sz s = Ok u s'" and "ok_meta s b" and "sz \<noteq> 0" and "sz \<le> size_m (meta s b)"
  shows "fits s' b sz \<and> status_m (meta s' b) = status_m (meta s b)"
proof (cases "size_m (meta s b) - sz < META_SIZE + ALIGNMENT")
  case True
  with assms have "s' = s" by (auto simp: split_block_def ok_meta_def)
  with True assms show ?thesis by (simp add: fits_def)
next
  case False
  from assms(2) have bn: "b \<noteq> NULL" by (simp add: ok_meta_def)
  from assms(1) False bn assms(2,3)
  have "ok_meta s' b \<and> size_m (meta s' b) = sz \<and> status_m (meta s' b) = status_m (meta s b)"
    by (auto simp: split_block_def Let_def split: if_splits)
  then show ?thesis by (simp add: fits_def const_defs)
qed

lemma split_if_larger_post:
  assumes "(if sz < size_m (meta s b) then split_block b sz s else Ok () s) = Ok u s'"
    and "ok_meta s b" and "sz \<noteq> 0" and "sz \<le> size_m (meta s b)"
  shows "fits s' b sz \<and> status_m (meta s' b) = status_m (meta s b)"
proof (cases "sz < size_m (meta s b)")
  case True
  with assms show ?thesis by (simp add: split_block_post)
next
  case False
  with assms have "size_m (meta s b) = sz" "s' = s" by auto
  with assms show ?thesis by (simp add: fits_def const_defs)
qed

lemma fits_set_status [simp]: "fits (set_status p st s) b sz = fits s b sz"
  by (simp add: fits_def)

lemma fits_globals [simp]:
  "fits (s\<lparr>prealloc := x, global_base := y, last_p := z\<rparr>) b sz = fits s b sz"
  by (simp add: fits_def ok_meta_def valid_range_def)

lemma os_malloc_small_post:
  assumes m: "os_malloc n s = Some (Ok p s')"
    and n: "n \<noteq> 0" and blk: "ALIGN (n + META_SIZE) < MMAP_THRESHOLD" and nz: "ALIGN (n + META_SIZE) \<noteq> 0"
    and b: "brk s \<noteq> FAILED"
  shows "fits s' (p - META_SIZE) (ALIGN (n + META_SIZE)) \<and> status_m (meta s' (p - META_SIZE)) = STATUS_ALLOC"
proof -
  define blk_size where "blk_size = ALIGN (n + META_SIZE)"
  from blk have nt: "\<not> MMAP_THRESHOLD \<le> blk_size" by (simp add: blk_size_def)
  from n have n': "\<not> n \<le> 0" by simp
  show ?thesis
  proof (cases "prealloc s")
    case False
    from m n' nt False obtain block s1 u s2 where
      bb: "brk_block MMAP_THRESHOLD s = Ok block s1" and ok1: "ok_meta s1 block"
      and sp: "(if blk_size < size_m (meta s1 block) then split_block block blk_size s1 else Ok () s1) = Ok u s2"
      and p: "p = block + META_SIZE" and s': "s' = s2\<lparr>prealloc := True, global_base := block, last_p := block\<rparr>"
      by (auto simp: os_malloc_def Let_def seq_def blk_size_def [symmetric]
          split: outcome.splits if_splits)
    from brk_block_post [OF bb _ b] have st1: "status_m (meta s1 block) = STATUS_ALLOC"
      and sz1: "size_m (meta s1 block) = MMAP_THRESHOLD"
      by (simp_all add: MMAP_THRESHOLD_def)
    from nt sz1 have "blk_size \<le> size_m (meta s1 block)" by simp
    from split_if_larger_post [OF sp ok1 _ this] nz st1
    have "fits s2 block blk_size \<and> status_m (meta s2 block) = STATUS_ALLOC"
      by (simp add: blk_size_def)
    then show ?thesis by (simp add: p s' blk_size_def)
  next
    case True
    from m n' nt True obtain u s1 block s2 where
      ce: "coalesce_everywhere s = Some (Ok u s1)"
      and fb: "find_best_fit blk_size s1 = Some (Ok block s2)"
      by (auto simp: os_malloc_def Let_def seq_def blk_size_def [symmetric]
          split: option.splits outcome.splits)
    from ce have b1: "brk s1 = brk s"
      by (auto simp: coalesce_everywhere_def dest: coalesce_everywhere_loop_brk)
    with b have b1': "brk s1 \<noteq> FAILED" by simp
    note post = find_best_fit_post [OF fb b1']
    show ?thesis
    proof (cases "block = NULL")
      case False
      from m n' nt True ce fb False obtain u' s3 where
        ok2: "ok_meta s2 block"
        and sp: "(if blk_size < size_m (meta s2 block) then split_block block blk_size s2 else Ok () s2) = Ok u' s3"
        and p: "p = block + META_SIZE" and s': "s' = set_status block STATUS_ALLOC s3"
        by (auto simp: os_malloc_def Let_def seq_def blk_size_def [symmetric]
            split: outcome.splits if_splits)
      from post False have "blk_size \<le> size_m (meta s2 block)" by simp
      from split_if_larger_post [OF sp ok2 _ this] nz
      have "fits s3 block blk_size" by (simp add: blk_size_def)
      then show ?thesis by (simp add: p s' blk_size_def)
    next
      case bn: True
      from m n' nt True ce fb bn obtain blk where
        bb: "brk_block blk_size s2 = Ok blk s'" and p: "p = blk + META_SIZE"
        by (auto simp: os_malloc_def Let_def seq_def blk_size_def [symmetric]
            split: outcome.splits if_splits)
      from post bn b1 b have "brk s2 \<noteq> FAILED" by simp
      from brk_block_post [OF bb _ this] nz
      show ?thesis by (simp add: p fits_def blk_size_def const_defs)
    qed
  qed
qed

lemma and_not_eq_diff: "(y :: 64 word) AND NOT m = y - (y AND m)"
proof -
  have "y - (y AND m) = y AND NOT (y AND m)"
    by (rule disjunctive_diff) (simp add: bit_and_iff)
  also have "\<dots> = y AND NOT m"
    by (rule bit_eqI) (auto simp: bit_and_iff bit_not_iff bit_or_iff)
  finally show ?thesis by simp
qed

lemma ALIGN_unat:
  assumes "unat x + 7 < 2 ^ 64"
  shows "unat x \<le> unat (ALIGN x) \<and> unat (ALIGN x) \<le> unat x + 7"
proof -
  define r where "r = (x + 7) AND 7"
  have a: "r \<le> 7" unfolding r_def by (rule word_and_le1)
  have b: "r \<le> x + 7" unfolding r_def by (rule word_and_le2)
  have "ALIGNMENT - 1 = 7" by (simp add: ALIGNMENT_def)
  then have e: "ALIGN x = x + 7 - r" by (simp only: ALIGN_def r_def and_not_eq_diff)
  from assms have u1: "unat (x + 7) = unat x + 7" by (simp add: unat_add_lem [THEN iffD1])
  from b have u2: "unat (x + 7 - r) = unat (x + 7) - unat r" by (rule unat_sub)
  from a have u3: "unat r \<le> 7" by (simp add: word_le_nat_alt)
  from u1 u2 u3 show ?thesis by (simp only: e) arith
qed

lemma ALIGN_small:
  assumes "n < MMAP_THRESHOLD"
  shows "unat n + 32 \<le> unat (ALIGN (n + META_SIZE))"
proof -
  from assms have "unat n < 131072" by (simp add: word_less_nat_alt MMAP_THRESHOLD_def)
  then have "unat (n + META_SIZE) = unat n + 32"
    by (simp add: META_SIZE_def unat_add_lem [THEN iffD1])
  moreover from this \<open>unat n < 131072\<close> have "unat (n + META_SIZE) + 7 < 2 ^ 64" by simp
  ultimately show ?thesis using ALIGN_unat [of "n + META_SIZE"] by simp
qed

lemma memset_post:
  "memset p c n s = Ok u s' \<Longrightarrow> a - p < n \<Longrightarrow> mem s' a = c"
  by (auto simp: memset_def split: if_splits)

lemma memset_maps: "memset p c n s = Ok u s' \<Longrightarrow> maps s' = maps s"
  by (auto simp: memset_def split: if_splits)

lemma valid_range_not_wrap: "valid_range s b META_SIZE \<Longrightarrow> b + META_SIZE \<noteq> NULL"
proof
  assume ok: "valid_range s b META_SIZE" and z: "b + META_SIZE = NULL"
  from ok have "uint b + uint META_SIZE < 2 ^ 64" by (simp add: valid_range_def)
  moreover from z have "b = - META_SIZE" by (simp add: eq_neg_iff_add_eq_0)
  ultimately show False by (simp add: META_SIZE_def)
qed

lemma brk_block_result:
  assumes "brk_block sz s = Ok b s'"
  shows "b = NULL \<or> ok_meta s' b"
proof -
  obtain req s1 where sb: "sbrk sz s = (req, s1)" by (cases "sbrk sz s")
  have z: "sbrk 0 s = (brk s, s)" by (simp add: sbrk_def)
  from assms sb z show ?thesis
    by (auto simp: brk_block_def Let_def ok_meta_new_meta ok_meta_def [of "_\<lparr>last_p := _\<rparr>"]
        valid_range_def split: if_splits)
qed

lemma os_malloc_nonnull:
  assumes "os_malloc n s = Some (Ok p s')" and "n \<noteq> 0"
  shows "p \<noteq> NULL"
proof -
  from assms(2) have n': "\<not> n \<le> 0" by simp
  obtain blk s1 where mm: "mmap (ALIGN (n + META_SIZE)) s = (blk, s1)"
    by (cases "mmap (ALIGN (n + META_SIZE)) s")
  have meta32: "NULL + META_SIZE \<noteq> NULL" by (simp add: META_SIZE_def)
  from assms(1) n' mm meta32 show ?thesis
    by (auto simp: os_malloc_def Let_def seq_def
        split: if_splits option.splits outcome.splits
        dest!: brk_block_result ok_meta_not_wrap valid_range_not_wrap)
qed


lemma mmap_result:
  "mmap len s = (b, s1) \<Longrightarrow> b \<noteq> FAILED \<Longrightarrow> b = mmap_next s \<and> maps s1 = (mmap_next s, len) # maps s"
  by (auto simp: mmap_def split: if_splits)

lemma maps_set [simp]:
  "maps (set_size p v s) = maps s" "maps (set_status p st s) = maps s" "maps (new_meta p s) = maps s"
  by (simp_all add: set_size_def set_status_def new_meta_def)

lemma os_calloc_mmap_branch:
  assumes "os_calloc nmemb size' s = Some (Ok p s')" and "\<not> size' \<le> 0" and "\<not> nmemb \<le> 0"
    and "page_size s \<le> ALIGN (size' * nmemb + META_SIZE)"
    and "mmap (ALIGN (size' * nmemb + META_SIZE)) s = (block, s1)"
  shows "block \<noteq> FAILED \<and> p = block + META_SIZE \<and>
    (\<exists>u s2. maps s2 = maps s1 \<and>
       memset (block + META_SIZE) 0 (ALIGN (size' * nmemb + META_SIZE) - META_SIZE) s2 = Ok u s')"
proof -
  let ?blk = "ALIGN (size' * nmemb + META_SIZE)"
  define s2 where "s2 = (if block \<noteq> NULL then set_size block ?blk (set_status block STATUS_MAPPED (new_meta block s1)) else s1)"
  have m2: "maps s2 = maps s1" by (simp add: s2_def)
  from assms have nf: "block \<noteq> FAILED"
    by (auto simp: os_calloc_def Let_def seq_def split: if_splits)
  from assms nf have "seq (Some (memset (block + META_SIZE) 0 (?blk - META_SIZE) s2))
      (\<lambda>u s3. Some (Ok (block + META_SIZE) s3)) = Some (Ok p s')"
    by (auto simp: os_calloc_def Let_def seq_def [of "Some (Ok _ _)"] seq_def [of "Some Undef"] s2_def
        split: if_splits)
  then have "p = block + META_SIZE \<and> (\<exists>u. memset (block + META_SIZE) 0 (?blk - META_SIZE) s2 = Ok u s')"
    by (cases "memset (block + META_SIZE) 0 (?blk - META_SIZE) s2") (auto simp: seq_def)
  with nf m2 show ?thesis by blast
qed

subsection \<open>Resize\<close>

text \<open>
  Claim C1. The relocation branch of \<^verbatim>\<open>os_realloc\<close> (lines 284 to 290) allocates, copies and
  releases, but does not return: control falls through to the in-place branches. Here the first
  allocation of a process asks for 131008 bytes and gets the whole 131072-byte arena block
  (status \<open>STATUS_ALLOC\<close>); resizing it to 131040 bytes needs an aligned size of 131072, which is
  at the mapping threshold. The call maps a new region and releases the old block, and then
  returns the old address, whose block is now \<open>STATUS_FREE\<close>; the new mapping stays behind.
\<close>

theorem os_realloc_relocation_falls_through:
  "case mapped_scenario of
     Some (Ok p s) \<Rightarrow>
       status_m (meta s (p - META_SIZE)) = STATUS_ALLOC \<and>
       MMAP_THRESHOLD \<le> ALIGN (131040 + META_SIZE) \<and>
       (case os_realloc p 131040 s of
          Some (Ok q s') \<Rightarrow>
            q = p \<and> status_m (meta s' (q - META_SIZE)) = STATUS_FREE \<and>
            maps s' = [(0x7F0000000000, 131072)]
        | _ \<Rightarrow> False)
   | _ \<Rightarrow> False"
  by code_simp

text \<open>
  Claim C6. When \<^verbatim>\<open>os_realloc\<close> has to move a block (lines 318 to 327) it copies as many bytes
  as the \<^emph>\<open>new\<close> block can hold, starting at the old pointer, where the relocation branch of
  line 288 copies the old block's usable size. Here the list is \<open>a\<close> (free, 129032 bytes),
  \<open>c\<close> (allocated, 8 usable bytes) and \<open>d\<close> (allocated, the tail, ending at the break).
  Growing \<open>c\<close> to 3000 bytes takes the new block from \<open>a\<close>, and the copy reads 3000 bytes from
  \<open>c\<close>, which is 992 bytes beyond the break: the call does not return a region.
\<close>

theorem os_realloc_grow_reads_past_break:
  "case relocate_scenario of
     Some (Ok (a, c, d) s) \<Rightarrow>
       block_list s (global_base s) [a - META_SIZE, c - META_SIZE, d - META_SIZE] \<and>
       last_p s = d - META_SIZE \<and>
       status_m (meta s (a - META_SIZE)) = STATUS_FREE \<and>
       size_m (meta s (a - META_SIZE)) = 129032 \<and>
       status_m (meta s (c - META_SIZE)) = STATUS_ALLOC \<and>
       size_m (meta s (c - META_SIZE)) - META_SIZE = 8 \<and>
       status_m (meta s (d - META_SIZE)) = STATUS_ALLOC \<and>
       d - META_SIZE + size_m (meta s (d - META_SIZE)) = brk s \<and>
       ALIGN (3000 + META_SIZE) < MMAP_THRESHOLD \<and>
       (case os_malloc 3000 s of
          Some (Ok q s1) \<Rightarrow>
            q = a \<and> size_m (meta s1 (q - META_SIZE)) - META_SIZE = 3000 \<and>
            uint (brk s1) + 992 = uint c + 3000 \<and> memcpy q c 3000 s1 = Undef
        | _ \<Rightarrow> False) \<and>
       os_realloc c 3000 s = Some Undef
   | _ \<Rightarrow> False"
  by code_simp

text \<open>
  The same copy on a second input: an 8-byte block followed by the free remainder of the
  arena. Growing it to 500 bytes places the new block directly behind the old one, and the
  504 bytes copied from the old pointer overlap the destination.
\<close>

lemma os_realloc_grow_copies_overlapping:
  "case grow_scenario of
     Some (Ok p s) \<Rightarrow>
       status_m (meta s (p - META_SIZE)) = STATUS_ALLOC \<and>
       size_m (meta s (p - META_SIZE)) - META_SIZE = 8 \<and>
       ALIGN (500 + META_SIZE) < MMAP_THRESHOLD \<and>
       (case os_malloc 500 s of
          Some (Ok q s1) \<Rightarrow>
            q = p + 40 \<and> size_m (meta s1 (q - META_SIZE)) - META_SIZE = 504 \<and>
            overlaps q 504 p 504 \<and> memcpy q p 504 s1 = Undef
        | _ \<Rightarrow> False) \<and>
       os_realloc p 500 s = Some Undef
   | _ \<Rightarrow> False"
  by code_simp

text \<open>
  Where the block is the arena tail the resize is in place (lines 299 to 308): the address
  stays and no byte changes.
\<close>

lemma sbrk_mem [simp]: "mem (snd (sbrk i s)) = mem s"
  by (simp add: sbrk_def Let_def)

lemma sbrk_not_null: "brk s \<noteq> NULL \<Longrightarrow> fst (sbrk i s) \<noteq> NULL"
  by (simp add: sbrk_def Let_def FAILED_def)

lemma os_realloc_tail_in_place:
  assumes "0 < size'" and "ptr \<noteq> NULL" and "ok_meta s (ptr - META_SIZE)"
    and "status_m (meta s (ptr - META_SIZE)) = STATUS_ALLOC"
    and "ALIGN (size' + META_SIZE) < MMAP_THRESHOLD"
    and "size_m (meta s (ptr - META_SIZE)) < ALIGN (size' + META_SIZE)"
    and "last_p s = ptr - META_SIZE" and "brk s \<noteq> NULL"
  shows "\<exists>s'. os_realloc ptr size' s = Some (Ok ptr s') \<and> mem s' = mem s"
proof -
  let ?block = "ptr - META_SIZE"
  let ?new = "ALIGN (size' + META_SIZE)"
  obtain r s1 where sb: "sbrk (int_of_size (?new - size_m (meta s ?block))) s = (r, s1)"
    by (cases "sbrk (int_of_size (?new - size_m (meta s ?block))) s")
  with sbrk_not_null [OF assms(8)] sbrk_mem [of _ s]
  have r: "r \<noteq> NULL" and m: "mem s1 = mem s"
    by (metis fst_conv, metis snd_conv)
  from assms(1) have n: "\<not> size' \<le> 0" by (simp add: word_gt_0)
  from assms(3) have bn: "?block \<noteq> NULL" by (simp add: ok_meta_def)
  from assms(5) have nt: "\<not> MMAP_THRESHOLD \<le> ?new" by simp
  from assms(6) have ns: "\<not> ?new \<le> size_m (meta s ?block)" by simp
  have "os_realloc ptr size' s = Some (Ok ptr (set_size ?block ?new s1))"
    using n assms(2,3,4,7) bn nt ns sb r
    by (simp add: os_realloc_def os_realloc_in_place_def Let_def)
  moreover have "mem (set_size ?block ?new s1) = mem s" by (simp add: m set_size_def)
  ultimately show ?thesis by blast
qed

text \<open>
  Claim C7. The tail-extension branch of \<^verbatim>\<open>os_realloc\<close> (lines 299 to 308) tests the result of
  \<^verbatim>\<open>sbrk\<close> against the null pointer, while \<^verbatim>\<open>sbrk\<close> reports failure as \<^verbatim>\<open>(void * )-1\<close>. Here the
  block \<open>b\<close> is the arena tail, of size 40, and the break cannot rise: resizing \<open>b\<close> to 100 bytes
  returns \<open>b\<close> with the size set to 136 although the break has not moved.
\<close>

theorem os_realloc_tail_ignores_sbrk_failure:
  "case tail_scenario of
     Some (Ok (a, b) s) \<Rightarrow>
       last_p s = b - META_SIZE \<and> next_m (meta s (last_p s)) = NULL \<and>
       status_m (meta s (b - META_SIZE)) = STATUS_ALLOC \<and>
       size_m (meta s (b - META_SIZE)) = 40 \<and>
       fst (sbrk (int_of_size (ALIGN (100 + META_SIZE) - 40)) s) = FAILED \<and>
       (case os_realloc b 100 s of
          Some (Ok r s') \<Rightarrow> r = b \<and> size_m (meta s' (b - META_SIZE)) = 136 \<and> brk s' = brk s
        | _ \<Rightarrow> False)
   | _ \<Rightarrow> False"
  by code_simp

text \<open>
  Claim C10. For every positive new size, \<^verbatim>\<open>os_realloc\<close> on a pointer whose header is
  \<open>STATUS_FREE\<close> returns the null pointer and changes nothing: the state after the call is
  the state before it.
\<close>

theorem os_realloc_free_block:
  assumes "0 < size'" and "ptr \<noteq> NULL" and "ok_meta s (ptr - META_SIZE)"
    and "status_m (meta s (ptr - META_SIZE)) = STATUS_FREE"
  shows "os_realloc ptr size' s = Some (Ok NULL s)"
proof -
  from assms(1) have "\<not> size' \<le> 0" by (simp add: word_gt_0)
  moreover from assms(3) have "ptr - META_SIZE \<noteq> NULL" by (simp add: ok_meta_def)
  ultimately show ?thesis using assms(2-4) by (simp add: os_realloc_def Let_def)
qed

theorem os_realloc_free_block_witness:
  "case freed_scenario of
     Some (Ok p s) \<Rightarrow> os_realloc p 50 s = Some (Ok NULL s)
   | _ \<Rightarrow> False"
proof -
  have "case freed_scenario of
     Some (Ok p s) \<Rightarrow>
       (0 :: size_t) < 50 \<and> p \<noteq> NULL \<and> ok_meta s (p - META_SIZE) \<and>
       status_m (meta s (p - META_SIZE)) = STATUS_FREE
   | _ \<Rightarrow> False"
    by code_simp
  then obtain p s where eq: "freed_scenario = Some (Ok p s)"
    and h: "(0 :: size_t) < 50" "p \<noteq> NULL" "ok_meta s (p - META_SIZE)"
      "status_m (meta s (p - META_SIZE)) = STATUS_FREE"
    by (auto split: option.splits outcome.splits)
  show ?thesis using os_realloc_free_block [OF h] by (simp add: eq)
qed

text \<open>
  Claim C9. For every positive \<open>n\<close> on the small-object path (\<open>n\<close> and its aligned block size
  are below the mapping threshold), resizing what \<^verbatim>\<open>os_malloc(n)\<close> returned to \<open>n\<close> bytes
  returns the same address and changes nothing. The break is assumed not to be the error
  value \<^verbatim>\<open>(void * )-1\<close> itself.
\<close>

theorem os_realloc_same_size:
  assumes "0 < n" and "n < MMAP_THRESHOLD" and "ALIGN (n + META_SIZE) < MMAP_THRESHOLD"
    and "brk s \<noteq> FAILED"
    and "os_malloc n s = Some (Ok p s')"
  shows "os_realloc p n s' = Some (Ok p s')"
proof -
  define block where "block = p - META_SIZE"
  define new_size where "new_size = ALIGN (n + META_SIZE)"
  from assms(1) have n: "n \<noteq> 0" "\<not> n \<le> 0" by (simp_all add: word_gt_0)
  have nz: "new_size \<noteq> 0"
    using ALIGN_small [OF assms(2)] by (auto simp: new_size_def)
  from os_malloc_small_post [OF assms(5) n(1) assms(3) _ assms(4)] nz
  have f: "fits s' block new_size" and st: "status_m (meta s' block) = STATUS_ALLOC"
    by (simp_all add: block_def new_size_def)
  from f have ok: "ok_meta s' block" and le: "new_size \<le> size_m (meta s' block)"
    and rm: "size_m (meta s' block) - new_size < META_SIZE + ALIGNMENT"
    by (simp_all add: fits_def)
  from ok have bn: "block \<noteq> NULL" by (simp add: ok_meta_def)
  from ok_meta_not_wrap [OF ok] have pn: "p \<noteq> NULL" by (simp add: block_def)
  from bn rm ok have sp: "split_block block new_size s' = Ok () s'"
    by (simp add: split_block_def)
  from assms(3) have nt: "\<not> MMAP_THRESHOLD \<le> new_size" by (simp add: new_size_def)
  show ?thesis
    using n pn bn ok st nt le sp
    by (simp add: os_realloc_def Let_def os_realloc_in_place_def seq_def
        block_def [symmetric] new_size_def [symmetric])
qed

theorem os_realloc_same_size_witness:
  "case os_malloc 100 (fresh 0x2000000) of
     Some (Ok p s') \<Rightarrow> os_realloc p 100 s' = Some (Ok p s')
   | _ \<Rightarrow> False"
proof -
  have h: "(0 :: size_t) < 100" "(100 :: size_t) < MMAP_THRESHOLD"
    "ALIGN (100 + META_SIZE) < MMAP_THRESHOLD" "brk (fresh 0x2000000) \<noteq> FAILED"
    by code_simp+
  have "case os_malloc 100 (fresh 0x2000000) of Some (Ok p s') \<Rightarrow> True | _ \<Rightarrow> False"
    by code_simp
  then obtain p s' where eq: "os_malloc 100 (fresh 0x2000000) = Some (Ok p s')"
    by (auto split: option.splits outcome.splits)
  show ?thesis using os_realloc_same_size [OF h eq] by (simp add: eq)
qed

subsection \<open>Zero-initialised allocation\<close>

lemma find_best_fit_loop_terminates:
  "block_list s cur xs \<Longrightarrow> \<exists>r. find_best_fit_loop sz cur bf bfs s = Some (Ok r s)"
proof (induction xs arbitrary: cur bf bfs)
  case Nil
  then show ?case by (subst find_best_fit_loop.simps) simp
next
  case (Cons x xs)
  then have "cur = x" "ok_meta s x" "x \<noteq> NULL" "block_list s (next_m (meta s x)) xs"
    by (auto simp: ok_meta_def)
  with Cons.IH show ?case by (subst find_best_fit_loop.simps) simp
qed

lemma seq_Some_total:
  "(\<And>v s. \<exists>r. f v s = Some r) \<Longrightarrow> \<exists>r. seq (Some x) f = Some r"
  by (cases x) (simp_all add: seq_def)

lemma find_best_fit_terminates:
  assumes "block_list s (global_base s) xs"
  shows "\<exists>r. find_best_fit sz s = Some r"
proof -
  from find_best_fit_loop_terminates [OF assms] obtain r where
    "find_best_fit_loop sz (global_base s) NULL SIZE_MAX s = Some (Ok r s)" by blast
  then show ?thesis
    by (cases r) (simp add: find_best_fit_def seq_def Let_def split: prod.splits)
qed

lemma os_malloc_terminates:
  assumes "prealloc s \<longrightarrow> block_list s (global_base s) xs"
  shows "\<exists>r. os_malloc n s = Some r"
proof (cases "prealloc s \<and> \<not> n \<le> 0 \<and> \<not> MMAP_THRESHOLD \<le> ALIGN (n + META_SIZE)")
  case False
  then show ?thesis
    by (auto simp: os_malloc_def Let_def split: prod.splits intro!: seq_Some_total)
next
  case True
  with assms have bl: "block_list s (global_base s) xs" by simp
  from coalesce_everywhere_loop_run [OF bl] obtain s1 ys where
    ce: "coalesce_everywhere s = Some (Ok () s1)" and bl1: "block_list s1 (global_base s1) ys"
    unfolding coalesce_everywhere_def by auto
  from find_best_fit_terminates [OF bl1] obtain r where
    fb: "find_best_fit (ALIGN (n + META_SIZE)) s1 = Some r" by blast
  from True ce fb show ?thesis
    by (cases r) (auto simp: os_malloc_def Let_def seq_def [of "Some (Ok _ _)"] intro!: seq_Some_total)
qed

lemma os_calloc_terminates:
  assumes "prealloc s \<longrightarrow> block_list s (global_base s) xs"
  shows "\<exists>r. os_calloc nmemb size' s = Some r"
proof -
  from os_malloc_terminates [OF assms] obtain r where
    "os_malloc (ALIGN (size' * nmemb + META_SIZE) - META_SIZE) s = Some r" by blast
  then show ?thesis
    by (cases r) (auto simp: os_calloc_def Let_def seq_def split: prod.splits outcome.splits)
qed

lemma os_calloc_result_zero:
  assumes "0 < nmemb" and "0 < size'" and "unat nmemb * unat size' + 39 < 2 ^ 64"
    and "os_calloc nmemb size' s = Some (Ok p s')"
  shows "(\<forall>i < unat nmemb * unat size'. mem s' (p + of_nat i) = 0) \<and>
    (page_size s \<le> ALIGN (size' * nmemb + META_SIZE) \<longrightarrow>
       p = mmap_next s + META_SIZE \<and>
       maps s' = (mmap_next s, ALIGN (size' * nmemb + META_SIZE)) # maps s)"
proof -
  let ?blk = "ALIGN (size' * nmemb + META_SIZE)"
  let ?len = "?blk - META_SIZE"
  define N where "N = unat nmemb * unat size'"
  from assms(1,2) have pos: "\<not> size' \<le> 0" "\<not> nmemb \<le> 0" by (simp_all add: word_gt_0)
  from assms(1,2) have "0 < unat nmemb" "0 < unat size'" by (simp_all add: word_gt_0 unat_gt_0)
  then have N0: "0 < N" by (simp add: N_def)
  from assms(3) have "unat size' * unat nmemb < 2 ^ LENGTH(64)" by (simp add: mult.commute)
  then have u1: "unat (size' * nmemb) = N"
    by (simp add: unat_mult_lem [THEN iffD1] N_def mult.commute)
  with assms(3) have u2: "unat (size' * nmemb + META_SIZE) = N + 32"
    by (simp add: META_SIZE_def unat_add_lem [THEN iffD1] N_def)
  with assms(3) have "unat (size' * nmemb + META_SIZE) + 7 < 2 ^ 64" by (simp add: N_def)
  from ALIGN_unat [OF this] u2 have u3: "N + 32 \<le> unat ?blk" by simp
  then have "META_SIZE \<le> ?blk" by (simp add: word_le_nat_alt META_SIZE_def)
  then have "unat ?len = unat ?blk - unat META_SIZE" by (rule unat_sub)
  with u3 have u4: "N \<le> unat ?len" by (simp add: META_SIZE_def)
  with N0 have len0: "?len \<noteq> 0" by (auto simp: unat_eq_0)
  have idx: "p + of_nat i - p < ?len" if "i < N" for i
  proof -
    from that u4 have "i < unat ?len" by simp
    then show ?thesis by (simp add: word_less_nat_alt unat_of_nat)
  qed
  show ?thesis
  proof (cases "page_size s \<le> ?blk")
    case True
    obtain block s1 where mm: "mmap ?blk s = (block, s1)" by (cases "mmap ?blk s")
    from os_calloc_mmap_branch [OF assms(4) pos True mm] obtain u s2 where nf: "block \<noteq> FAILED"
      and ms: "memset (block + META_SIZE) 0 ?len s2 = Ok u s'" and p: "p = block + META_SIZE"
      and s2: "maps s2 = maps s1"
      by blast
    from mmap_result [OF mm nf] s2 memset_maps [OF ms]
    have "p = mmap_next s + META_SIZE \<and> maps s' = (mmap_next s, ?blk) # maps s" by (simp add: p)
    moreover have "\<forall>i < N. mem s' (p + of_nat i) = 0"
      using memset_post [OF ms] idx by (simp add: p)
    ultimately show ?thesis by (simp add: N_def)
  next
    case False
    from assms(4) pos False obtain block s1 where
      om: "os_malloc ?len s = Some (Ok block s1)"
      by (simp add: os_calloc_def Let_def seq_def split: option.splits outcome.splits)
    from os_malloc_nonnull [OF om len0] have bn: "block \<noteq> NULL" .
    from assms(4) pos False om bn obtain u where
      ms: "memset block 0 ?len s1 = Ok u s'" and p: "p = block"
      by (simp add: os_calloc_def Let_def seq_def split: outcome.splits)
    have "\<forall>i < N. mem s' (p + of_nat i) = 0"
      using memset_post [OF ms] idx by (simp add: p)
    with False show ?thesis by (simp add: N_def)
  qed
qed

text \<open>
  Claim C8, as stated, fails: the product of count and element size is computed in
  \<^verbatim>\<open>size_t\<close>. For \<open>2\<^sup>6\<^sup>3\<close> elements of 2 bytes it is 0, \<^verbatim>\<open>os_malloc(0)\<close> returns the null pointer
  and \<^verbatim>\<open>os_calloc\<close> returns \<^verbatim>\<open>(void * )(block + 1)\<close>, the address \<open>META_SIZE\<close>: nothing has been
  provisioned and nothing has been set to zero.
\<close>

theorem os_calloc_overflow_counterexample:
  "(0 :: size_t) < 2 ^ 63 \<and> (0 :: size_t) < 2 \<and>
   (case os_calloc (2 ^ 63) 2 (fresh 0x2000000) of
      Some (Ok p s) \<Rightarrow>
        p = NULL + META_SIZE \<and> mem s p \<noteq> 0 \<and> \<not> valid_range s p 1 \<and>
        brk s = brk (fresh 0x2000000) \<and> maps s = []
    | _ \<Rightarrow> False)"
  by code_simp

text \<open>
  Claim C8, amended. For every positive count and element size whose product, with the header
  and the alignment padding, fits into \<^verbatim>\<open>size_t\<close>, and every state whose block list is a
  null-terminated chain once the arena exists: \<^verbatim>\<open>os_calloc\<close> terminates, and whenever it
  returns, the first \<open>nmemb * size\<close> bytes at the address it returns are zero; when the
  aligned block size is at least the page size (whatever its relation to the mapping
  threshold), the region is a fresh mapping of exactly that size.
\<close>

theorem os_calloc_zero_filled:
  assumes "0 < nmemb" and "0 < size'" and "unat nmemb * unat size' + 39 < 2 ^ 64"
    and "prealloc s \<longrightarrow> block_list s (global_base s) xs"
  shows "\<exists>r. os_calloc nmemb size' s = Some r \<and>
    (\<forall>p s'. r = Ok p s' \<longrightarrow>
       (\<forall>i < unat nmemb * unat size'. mem s' (p + of_nat i) = 0) \<and>
       (page_size s \<le> ALIGN (size' * nmemb + META_SIZE) \<longrightarrow>
          p = mmap_next s + META_SIZE \<and>
          maps s' = (mmap_next s, ALIGN (size' * nmemb + META_SIZE)) # maps s))"
proof -
  from os_calloc_terminates [OF assms(4)] obtain r where r: "os_calloc nmemb size' s = Some r"
    by blast
  show ?thesis
    using os_calloc_result_zero [OF assms(1-3)] r by (intro exI [of _ r]) blast
qed

theorem os_calloc_zero_filled_witness:
  "case os_malloc 100 (fresh 0x2000000) of
     Some (Ok a s) \<Rightarrow>
       prealloc s \<and> block_list s (global_base s) [a - 32, a + 104] \<and>
       (case os_calloc 10 10 s of
          Some (Ok p s') \<Rightarrow> mem s p \<noteq> 0 \<and> mem s' p = 0 \<and> mem s' (p + 99) = 0
        | _ \<Rightarrow> False)
   | _ \<Rightarrow> False"
proof -
  define P where "P a s \<longleftrightarrow>
    prealloc s \<and> block_list s (global_base s) [a - 32, a + 104] \<and>
    (case os_calloc 10 10 s of Some (Ok p s') \<Rightarrow> mem s p \<noteq> 0 | _ \<Rightarrow> False)" for a s
  have "case os_malloc 100 (fresh 0x2000000) of Some (Ok a s) \<Rightarrow> P a s | _ \<Rightarrow> False"
    unfolding P_def by code_simp
  then obtain a s where m: "os_malloc 100 (fresh 0x2000000) = Some (Ok a s)" and "P a s"
    by (auto split: option.splits outcome.splits)
  then have pre: "prealloc s" and bl: "block_list s (global_base s) [a - 32, a + 104]"
    and "case os_calloc 10 10 s of Some (Ok p s') \<Rightarrow> mem s p \<noteq> 0 | _ \<Rightarrow> False"
    by (simp_all add: P_def)
  then obtain p s' where c: "os_calloc 10 10 s = Some (Ok p s')" and g: "mem s p \<noteq> 0"
    by (auto split: option.splits outcome.splits)
  have h: "(0 :: size_t) < 10" "(0 :: size_t) < 10"
    "unat (10 :: size_t) * unat (10 :: size_t) + 39 < 2 ^ 64"
    "prealloc s \<longrightarrow> block_list s (global_base s) [a - 32, a + 104]"
    using bl by simp_all
  from os_calloc_zero_filled [OF h] c
  have "\<forall>i < 100. mem s' (p + of_nat i) = 0" by simp
  from this [rule_format, of 0] this [rule_format, of 99] pre bl g
  show ?thesis by (simp add: m c)
qed

subsection \<open>Best-fit search\<close>

text \<open>
  Claim C2. \<^verbatim>\<open>find_best_fit\<close> grows the tail whenever the tail is free and too small and no
  block of \<^emph>\<open>exactly\<close> the requested size was found (\<^verbatim>\<open>best_fit_size > size\<close>), also when a
  larger free block fits. Here the list is \<open>a\<close> (allocated), \<open>b\<close> (free, 2032 bytes), \<open>c\<close>
  (allocated) and a free tail of 976 bytes. A request for 1536 bytes fits into \<open>b\<close>, yet the
  search extends the break by 560 bytes and returns the tail.
\<close>

theorem find_best_fit_grows_tail_despite_fit:
  "case best_fit_scenario of
     Some (Ok (a, b, c) s) \<Rightarrow>
       global_base s = a - META_SIZE \<and>
       next_m (meta s (a - META_SIZE)) = b - META_SIZE \<and>
       next_m (meta s (b - META_SIZE)) = c - META_SIZE \<and>
       next_m (meta s (c - META_SIZE)) = last_p s \<and>
       next_m (meta s (last_p s)) = NULL \<and>
       status_m (meta s (b - META_SIZE)) = STATUS_FREE \<and>
       size_m (meta s (b - META_SIZE)) = 2032 \<and>
       status_m (meta s (last_p s)) = STATUS_FREE \<and>
       size_m (meta s (last_p s)) = 976 \<and>
       (case find_best_fit 1536 s of
          Some (Ok r s') \<Rightarrow>
            r = last_p s \<and> r \<noteq> b - META_SIZE \<and> size_m (meta s' r) = 1536 \<and>
            brk s' = brk s + 560
        | _ \<Rightarrow> False)
   | _ \<Rightarrow> False"
  by code_simp

subsection \<open>Arena growth\<close>

text \<open>
  Claim C3, as stated, fails: in a process whose break cannot rise, \<^verbatim>\<open>sbrk\<close> reports
  \<^verbatim>\<open>(void * )-1\<close> and \<^verbatim>\<open>brk_block\<close> terminates the process instead of returning the null pointer.
\<close>

theorem brk_block_sentinel_counterexample:
  "fst (sbrk 131072 (fresh 0x1000000)) = FAILED \<and>
   brk_block 131072 (fresh 0x1000000) = Die ''sbrk failed''"
  by code_simp

text \<open>
  Claim C3, amended. When \<^verbatim>\<open>sbrk\<close> reports \<^verbatim>\<open>(void * )-1\<close> for a non-zero request (the break
  itself not being that value), \<^verbatim>\<open>brk_block\<close> terminates the process with the message
  \<open>sbrk failed\<close>: the test \<^verbatim>\<open>req != block\<close> of line 37 comes before the test for the error
  value of line 39.
\<close>

theorem brk_block_sbrk_failure_fatal:
  assumes "0 < size'" and "brk s \<noteq> FAILED" and "fst (sbrk size' s) = FAILED"
  shows "brk_block size' s = Die ''sbrk failed''"
proof -
  from assms(1) have nz: "\<not> size' \<le> 0" by (simp add: word_gt_0)
  have z: "sbrk 0 s = (brk s, s)" by (simp add: sbrk_def)
  obtain req s1 where r: "sbrk size' s = (req, s1)" by (cases "sbrk size' s")
  with assms(3) have "req = FAILED" by simp
  with nz z r assms(2) show ?thesis by (simp add: brk_block_def)
qed

theorem brk_block_sbrk_failure_fatal_witness:
  "(0 :: size_t) < 131072 \<and> brk (fresh 0x1000000) \<noteq> FAILED \<and>
   fst (sbrk 131072 (fresh 0x1000000)) = FAILED \<and>
   brk_block 131072 (fresh 0x1000000) = Die ''sbrk failed''"
proof -
  have h: "(0 :: size_t) < 131072" "brk (fresh 0x1000000) \<noteq> FAILED"
    "fst (sbrk 131072 (fresh 0x1000000)) = FAILED"
    by code_simp+
  show ?thesis using h brk_block_sbrk_failure_fatal [OF h] by simp
qed

subsection \<open>The \<^verbatim>\<open>last\<close> pointer\<close>

text \<open>
  Claim C4. In the first small allocation \<^verbatim>\<open>split_block\<close> moves \<^verbatim>\<open>last\<close> to the remainder
  (line 92), and \<^verbatim>\<open>os_malloc\<close> then sets it back to the allocated block (line 190). After
  \<^verbatim>\<open>os_malloc(100)\<close> in a fresh process the list is the allocated block followed by the free
  remainder, and \<^verbatim>\<open>last\<close> is the allocated block.
\<close>

theorem os_malloc_first_call_last_is_prefix:
  "case os_malloc 100 (fresh 0x2000000) of
     Some (Ok p s) \<Rightarrow>
       global_base s = p - META_SIZE \<and>
       last_p s = p - META_SIZE \<and>
       status_m (meta s (p - META_SIZE)) = STATUS_ALLOC \<and>
       next_m (meta s (p - META_SIZE)) = p - META_SIZE + 136 \<and>
       ok_meta s (p - META_SIZE + 136) \<and>
       status_m (meta s (p - META_SIZE + 136)) = STATUS_FREE \<and>
       next_m (meta s (p - META_SIZE + 136)) = NULL
   | _ \<Rightarrow> False"
  by code_simp

end
